theory Spec2Isabelle
  imports Main "HOL-Library.Char_ord" "HOL-Library.List_Lexorder"
begin

section \<open>Shared data: buffers, digests, metadata\<close>

text \<open>
  A Node \<open>Buffer\<close> is a sequence of bytes; an Isabelle \<open>char\<close> is one byte, so a
  buffer is a \<open>string\<close> and \<open>Buffer.length\<close> is \<open>length\<close>.

  \<open>CryptoUtils.sha1\<close> delegates to the platform's \<open>crypto\<close> module; the piece store
  only compares its result with the expected digest. The digest function is therefore a
  parameter \<open>h\<close> of every operation that hashes.
\<close>

type_synonym Buffer = string

type_synonym digest = "Buffer \<Rightarrow> Buffer"

text \<open>\<open>CryptoUtils.verifyHash\<close>: \<open>sha1(data).equals(expectedHash)\<close>.\<close>

definition verifyHash :: "digest \<Rightarrow> Buffer \<Rightarrow> Buffer \<Rightarrow> bool" where
  "verifyHash h dat expectedHash = (h dat = expectedHash)"

text \<open>
  \<open>TorrentMetadata\<close>. The only producer of a metadata object,
  \<open>TorrentParser.extractMetadata\<close>, sets \<open>pieceCount\<close> to \<open>pieceHashes.length\<close>, so
  \<open>pieceCount\<close> is derived from the list of hashes here. JavaScript numbers that hold
  lengths and counts are \<open>nat\<close>.
\<close>

record TorrentMetadata =
  infoHash :: Buffer
  pieceHashes :: "Buffer list"
  totalLength :: nat
  pieceLength :: nat
  fileName :: string
  announceList :: "string list"

definition pieceCount :: "'a TorrentMetadata_scheme \<Rightarrow> nat" where
  "pieceCount m = length (pieceHashes m)"

section \<open>Piece store (\<open>core/piece-manager.ts\<close>)\<close>

text \<open>
  \<open>PieceInfo\<close>. The field \<open>size\<close> is named \<open>size_piece\<close> here. The block map is a
  JavaScript \<open>Map\<close> from offset to block, which keeps insertion order: an association
  list, written only through \<open>blocks_set\<close>.
\<close>

record PieceInfo =
  index :: nat
  size_piece :: nat
  hash :: Buffer
  data :: Buffer
  blocks :: "(nat \<times> Buffer) list"
  totalBlocks :: nat
  receivedBlocks :: nat
  requested :: bool
  completed :: bool

record PieceManager =
  metadata :: TorrentMetadata
  pieces :: "PieceInfo list"
  completedPieces :: "nat set"
  currentPieceIndex :: nat
  pmPieceLength :: nat

text \<open>\<open>Map.has\<close>, \<open>Map.get\<close> and \<open>Map.set\<close> on the block map.\<close>

definition blocks_has :: "(nat \<times> Buffer) list \<Rightarrow> nat \<Rightarrow> bool" where
  "blocks_has bs off = (map_of bs off \<noteq> None)"

definition blocks_get :: "(nat \<times> Buffer) list \<Rightarrow> nat \<Rightarrow> Buffer option" where
  "blocks_get bs off = map_of bs off"

definition blocks_set :: "(nat \<times> Buffer) list \<Rightarrow> nat \<Rightarrow> Buffer \<Rightarrow> (nat \<times> Buffer) list" where
  "blocks_set bs off b =
     (if blocks_has bs off then map (\<lambda>(k, v). if k = off then (k, b) else (k, v)) bs
      else bs @ [(off, b)])"

text \<open>\<open>Math.ceil(size / 16384)\<close> on a non-negative integer.\<close>

definition ceil_div :: "nat \<Rightarrow> nat \<Rightarrow> nat" where
  "ceil_div a b = (a + b - 1) div b"

text \<open>
  \<open>initializePieces\<close>: piece \<open>i\<close> of \<open>pieceCount\<close>. The size of the last piece is
  \<open>totalLength - i * pieceLength\<close>; when that is negative \<open>Buffer.alloc\<close> throws a
  \<open>RangeError\<close> and no store exists, which is the \<open>None\<close> of \<open>newPieceManager\<close>.
\<close>

definition initPiece :: "TorrentMetadata \<Rightarrow> nat \<Rightarrow> PieceInfo option" where
  "initPiece m i =
     (let isLastPiece = (int i = int (pieceCount m) - 1) in
      if isLastPiece \<and> totalLength m < i * pieceLength m then None
      else
        let sz = (if isLastPiece then totalLength m - i * pieceLength m else pieceLength m) in
        Some \<lparr> index = i, size_piece = sz, hash = pieceHashes m ! i,
               data = replicate sz (CHR 0x00), blocks = [],
               totalBlocks = ceil_div sz 16384, receivedBlocks = 0,
               requested = False, completed = False \<rparr>)"

fun initializePieces_loop :: "TorrentMetadata \<Rightarrow> nat list \<Rightarrow> PieceInfo list option" where
  "initializePieces_loop m [] = Some []"
| "initializePieces_loop m (i # is) =
     (case initPiece m i of
        None \<Rightarrow> None
      | Some p \<Rightarrow> (case initializePieces_loop m is of
                    None \<Rightarrow> None
                  | Some ps \<Rightarrow> Some (p # ps)))"

definition initializePieces :: "TorrentMetadata \<Rightarrow> PieceInfo list option" where
  "initializePieces m = initializePieces_loop m [0 ..< pieceCount m]"

definition newPieceManager :: "TorrentMetadata \<Rightarrow> PieceManager option" where
  "newPieceManager m =
     (case initializePieces m of
        None \<Rightarrow> None
      | Some ps \<Rightarrow> Some \<lparr> metadata = m, pieces = ps, completedPieces = {},
                         currentPieceIndex = 0, pmPieceLength = pieceLength m \<rparr>)"

text \<open>
  \<open>this.pieces[pieceIndex]\<close>: \<open>undefined\<close> (here \<open>None\<close>) for every index that is not
  the position of an element. The index is an \<open>int\<close>, so that negative indices are inputs.
\<close>

definition piece_at :: "PieceInfo list \<Rightarrow> int \<Rightarrow> PieceInfo option" where
  "piece_at ps i = (if 0 \<le> i \<and> i < int (length ps) then Some (ps ! nat i) else None)"

text \<open>Writing through the reference \<open>piece\<close> obtained from \<open>this.pieces[pieceIndex]\<close>.\<close>

definition piece_put :: "PieceManager \<Rightarrow> int \<Rightarrow> PieceInfo \<Rightarrow> PieceManager" where
  "piece_put pm i p = pm \<lparr> pieces := (pieces pm) [nat i := p] \<rparr>"

text \<open>\<open>getNextPieceToDownload\<close>: looks at \<open>pieces[currentPieceIndex]\<close> only.\<close>

definition getNextPieceToDownload :: "PieceManager \<Rightarrow> PieceInfo option \<times> PieceManager" where
  "getNextPieceToDownload pm =
     (case piece_at (pieces pm) (int (currentPieceIndex pm)) of
        None \<Rightarrow> (None, pm)
      | Some nextPiece \<Rightarrow>
          if \<not> completed nextPiece \<and> \<not> requested nextPiece
          then (let p = nextPiece \<lparr> requested := True \<rparr>
                in (Some p, piece_put pm (int (currentPieceIndex pm)) p))
          else (None, pm))"

text \<open>
  The loop of \<open>assemblePiece\<close> over the sorted offsets. \<open>None\<close> is the early
  \<open>return false\<close> of the contiguity check. Every offset is a key of the map, so the
  lookup finds a block; the \<open>None\<close> branch of the lookup is never taken.
\<close>

fun assemble_loop :: "(nat \<times> Buffer) list \<Rightarrow> nat list \<Rightarrow> Buffer \<Rightarrow> nat \<Rightarrow> Buffer option" where
  "assemble_loop bs [] assembledData expectedOffset = Some assembledData"
| "assemble_loop bs (off # offs) assembledData expectedOffset =
     (if off \<noteq> expectedOffset then None
      else case blocks_get bs off of
             None \<Rightarrow> None
           | Some blockData \<Rightarrow>
               assemble_loop bs offs (assembledData @ blockData)
                 (expectedOffset + length blockData))"

text \<open>\<open>assemblePiece\<close>, called with the index of an existing piece.\<close>

definition assemblePiece :: "digest \<Rightarrow> PieceManager \<Rightarrow> int \<Rightarrow> bool \<times> PieceManager" where
  "assemblePiece h pm pieceIndex =
     (case piece_at (pieces pm) pieceIndex of
        None \<Rightarrow> (False, pm)
      | Some piece \<Rightarrow>
          let sortedOffsets = sort (map fst (blocks piece)) in
          (case assemble_loop (blocks piece) sortedOffsets [] 0 of
            None \<Rightarrow> (False, pm)
          | Some assembledData \<Rightarrow>
              if length assembledData \<noteq> size_piece piece then (False, pm)
              else if \<not> verifyHash h assembledData (hash piece)
              then (False, piece_put pm pieceIndex
                      (piece \<lparr> requested := False, blocks := [], receivedBlocks := 0 \<rparr>))
              else
                let pm1 = piece_put pm pieceIndex
                            (piece \<lparr> data := assembledData, completed := True \<rparr>);
                    pm2 = pm1 \<lparr> completedPieces := insert (nat pieceIndex) (completedPieces pm1) \<rparr>;
                    pm3 = (if pieceIndex = int (currentPieceIndex pm2)
                           then pm2 \<lparr> currentPieceIndex := currentPieceIndex pm2 + 1 \<rparr>
                           else pm2)
                in (True, pm3)))"

text \<open>\<open>addBlockToPiece\<close>.\<close>

definition addBlockToPiece ::
  "digest \<Rightarrow> PieceManager \<Rightarrow> int \<Rightarrow> nat \<Rightarrow> Buffer \<Rightarrow> bool \<times> PieceManager" where
  "addBlockToPiece h pm pieceIndex offset blockData =
     (case piece_at (pieces pm) pieceIndex of
        None \<Rightarrow> (False, pm)
      | Some piece \<Rightarrow>
          if completed piece then (True, pm)
          else if offset + length blockData > size_piece piece then (False, pm)
          else
            let piece1 = (if \<not> blocks_has (blocks piece) offset
                          then piece \<lparr> blocks := blocks_set (blocks piece) offset blockData,
                                       receivedBlocks := receivedBlocks piece + 1 \<rparr>
                          else piece);
                pm1 = piece_put pm pieceIndex piece1
            in if receivedBlocks piece1 \<ge> totalBlocks piece1
               then assemblePiece h pm1 pieceIndex
               else (False, pm1))"

text \<open>\<open>getPieceData\<close>, \<open>getPieceInfo\<close> and \<open>resetPieceRequest\<close>.\<close>

definition getPieceData :: "PieceManager \<Rightarrow> int \<Rightarrow> Buffer option" where
  "getPieceData pm pieceIndex =
     (case piece_at (pieces pm) pieceIndex of
        None \<Rightarrow> None
      | Some piece \<Rightarrow> if completed piece then Some (data piece) else None)"

definition getPieceInfo :: "PieceManager \<Rightarrow> int \<Rightarrow> PieceInfo option" where
  "getPieceInfo pm pieceIndex = piece_at (pieces pm) pieceIndex"

definition resetPieceRequest :: "PieceManager \<Rightarrow> int \<Rightarrow> PieceManager" where
  "resetPieceRequest pm pieceIndex =
     (case piece_at (pieces pm) pieceIndex of
        None \<Rightarrow> pm
      | Some piece \<Rightarrow>
          if \<not> completed piece
          then piece_put pm pieceIndex
                 (piece \<lparr> requested := False, blocks := [], receivedBlocks := 0 \<rparr>)
          else pm)"

subsection \<open>Example stores\<close>

text \<open>
  A one-piece torrent whose only piece is the four bytes \<open>abcd\<close>, for an arbitrary
  digest function \<open>h\<close>, and a two-piece torrent of six bytes with piece length four.
  \<open>store_one\<close> and \<open>store_two\<close> are the stores the constructor builds for them.
\<close>

definition md_one :: "digest \<Rightarrow> TorrentMetadata" where
  "md_one h = \<lparr> infoHash = [], pieceHashes = [h ''abcd''], totalLength = 4,
               pieceLength = 4, fileName = ''f'', announceList = [] \<rparr>"

definition store_one :: "digest \<Rightarrow> PieceManager" where
  "store_one h =
     \<lparr> metadata = md_one h,
       pieces = [\<lparr> index = 0, size_piece = 4, hash = h ''abcd'', data = replicate 4 (CHR 0x00),
                   blocks = [], totalBlocks = 1, receivedBlocks = 0,
                   requested = False, completed = False \<rparr>],
       completedPieces = {}, currentPieceIndex = 0, pmPieceLength = 4 \<rparr>"

definition md_two :: TorrentMetadata where
  "md_two = \<lparr> infoHash = [], pieceHashes = [replicate 20 (CHR 0x01), replicate 20 (CHR 0x02)],
             totalLength = 6, pieceLength = 4, fileName = ''f'', announceList = [] \<rparr>"

definition store_two :: PieceManager where
  "store_two =
     \<lparr> metadata = md_two,
       pieces = [\<lparr> index = 0, size_piece = 4, hash = replicate 20 (CHR 0x01),
                   data = replicate 4 (CHR 0x00), blocks = [], totalBlocks = 1,
                   receivedBlocks = 0, requested = False, completed = False \<rparr>,
                 \<lparr> index = 1, size_piece = 2, hash = replicate 20 (CHR 0x02),
                   data = replicate 2 (CHR 0x00), blocks = [], totalBlocks = 1,
                   receivedBlocks = 0, requested = False, completed = False \<rparr>],
       completedPieces = {}, currentPieceIndex = 0, pmPieceLength = 4 \<rparr>"

text \<open>The store after \<open>getNextPieceToDownload\<close> has handed out piece 0.\<close>

definition store_one_requested :: "digest \<Rightarrow> PieceManager" where
  "store_one_requested h = snd (getNextPieceToDownload (store_one h))"

section \<open>File writer (\<open>core/file-manager.ts\<close>)\<close>

text \<open>
  \<open>FileManager\<close>. The open file handle is modelled by the file's content; \<open>None\<close> is
  the \<open>null\<close> handle before \<open>initializeFile\<close>. Failures of the operating system's
  write are outside the model.
\<close>

record FileManager =
  fmMetadata :: TorrentMetadata
  fileHandle :: "Buffer option"
  bytesWritten :: nat

datatype fm_error = NotInitialized

definition newFileManager :: "TorrentMetadata \<Rightarrow> FileManager" where
  "newFileManager m = \<lparr> fmMetadata = m, fileHandle = None, bytesWritten = 0 \<rparr>"

text \<open>\<open>initializeFile\<close>: open with truncation, then \<open>truncate(totalLength)\<close>.\<close>

definition initializeFile :: "FileManager \<Rightarrow> FileManager" where
  "initializeFile fm =
     fm \<lparr> fileHandle := Some (replicate (totalLength (fmMetadata fm)) (CHR 0x00)) \<rparr>"

text \<open>
  \<open>calculatePieceSize\<close>. The standard size is \<open>Math.floor(totalLength / pieceCount)\<close>,
  not the metadata's \<open>pieceLength\<close>. It is only called for an existing piece, so
  \<open>pieceCount\<close> is positive where it is used.
\<close>

definition calculatePieceSize :: "TorrentMetadata \<Rightarrow> nat \<Rightarrow> nat" where
  "calculatePieceSize m pieceIndex =
     (let standardPieceSize = totalLength m div pieceCount m in
      if int pieceIndex = int (pieceCount m) - 1
      then totalLength m - pieceIndex * standardPieceSize
      else standardPieceSize)"

text \<open>The position \<open>writePiece\<close> computes for a piece.\<close>

definition writePosition :: "TorrentMetadata \<Rightarrow> nat \<Rightarrow> nat" where
  "writePosition m pieceIndex = pieceIndex * calculatePieceSize m pieceIndex"

text \<open>
  \<open>fileHandle.write(data, 0, data.length, position)\<close>: a positional write, which
  overwrites the bytes from \<open>position\<close> on and extends the file with zero bytes when
  it is shorter.
\<close>

definition file_write :: "Buffer \<Rightarrow> Buffer \<Rightarrow> nat \<Rightarrow> Buffer" where
  "file_write file dat position =
     take position (file @ replicate (position - length file) (CHR 0x00))
       @ dat @ drop (position + length dat) file"

definition writePiece :: "FileManager \<Rightarrow> nat \<Rightarrow> Buffer \<Rightarrow> fm_error + FileManager" where
  "writePiece fm pieceIndex dat =
     (case fileHandle fm of
        None \<Rightarrow> Inl NotInitialized
      | Some file \<Rightarrow>
          let position = writePosition (fmMetadata fm) pieceIndex in
          Inr (fm \<lparr> fileHandle := Some (file_write file dat position),
                    bytesWritten := bytesWritten fm + length dat \<rparr>))"

text \<open>
  A torrent of ten bytes in three pieces of length four (the last piece has two bytes),
  and the three writes a download of it makes.
\<close>

definition md_short :: TorrentMetadata where
  "md_short = \<lparr> infoHash = [],
                pieceHashes = [replicate 20 (CHR 0x01), replicate 20 (CHR 0x02),
                               replicate 20 (CHR 0x03)],
                totalLength = 10, pieceLength = 4, fileName = ''f'', announceList = [] \<rparr>"

definition writeAll :: "FileManager \<Rightarrow> (nat \<times> Buffer) list \<Rightarrow> fm_error + FileManager" where
  "writeAll fm ws =
     fold (\<lambda>(i, dat) r. case r of Inl e \<Rightarrow> Inl e | Inr fm' \<Rightarrow> writePiece fm' i dat) ws (Inr fm)"

section \<open>Bencode codec (\<open>parsers/bencode.ts\<close>)\<close>

text \<open>
  \<open>BencodeValue\<close> is \<open>string | number | Buffer | BencodeDict | BencodeValue[]\<close>.
  The values of the program are represented as follows.
  \<^item> A number is an \<open>int\<close>. Only the integers of magnitude at most
    \<open>MAX_SAFE_INTEGER\<close> (\<open>2^53 - 1\<close>) are represented; negative zero is \<open>0\<close>.
  \<^item> A JavaScript string is represented by its UTF-8 bytes. The keys of dictionaries
    are the only strings the decoder makes; only ASCII keys are represented, for which
    \<open>buf.toString()\<close> and \<open>Buffer.from(str)\<close> are the identity and the order of
    \<open>sort()\<close> (by UTF-16 code unit) is the order of the bytes.
  \<^item> A dictionary object is represented by its own properties, as the list of its
    entries in ascending order of the keys. The order in which the object enumerates
    its keys is not represented (the codec sorts the keys before it uses them), nor is
    its prototype; the key \<open>__proto__\<close>, whose assignment changes the prototype
    instead of adding a property, is not represented.
  Where the decoder meets a number or a key that is not represented, the model stops
  with \<open>OutsideModel\<close>: it makes no statement about what the program does then.
  \<open>OutsideModel\<close> and \<open>OutOfFuel\<close> are no errors of the program; the other values of
  \<open>bencode_error\<close> are the errors it throws.
\<close>

datatype BencodeValue =
    BString string
  | BNumber int
  | BBuffer Buffer
  | BList "BencodeValue list"
  | BDict "(string \<times> BencodeValue) list"

datatype bencode_error =
    UnexpectedChar
  | StringMissingColon
  | InvalidStringLength
  | IntegerMissingE
  | InvalidInteger
  | ListMissingE
  | DictMissingE
  | OutOfFuel
  | OutsideModel

definition MAX_SAFE_INTEGER :: nat where
  "MAX_SAFE_INTEGER = 9007199254740991"

subsection \<open>Library functions the codec uses\<close>

text \<open>
  The white space and line terminators that \<open>parseInt\<close> skips, each as the UTF-8 bytes
  of the character: U+0009 to U+000D, U+0020, U+00A0, U+1680, U+2000 to U+200A, U+2028,
  U+2029, U+202F, U+205F, U+3000, U+FEFF. A text begins with one of these characters
  exactly when its bytes begin with the character's encoding.
\<close>

definition whiteSpaceChars :: "string list" where
  "whiteSpaceChars =
     [[CHR 0x09], [CHR 0x0A], [CHR 0x0B], [CHR 0x0C], [CHR 0x0D], [CHR 0x20],
      [CHR 0xC2, CHR 0xA0], [CHR 0xE1, CHR 0x9A, CHR 0x80],
      [CHR 0xE2, CHR 0x80, CHR 0x80], [CHR 0xE2, CHR 0x80, CHR 0x81],
      [CHR 0xE2, CHR 0x80, CHR 0x82], [CHR 0xE2, CHR 0x80, CHR 0x83],
      [CHR 0xE2, CHR 0x80, CHR 0x84], [CHR 0xE2, CHR 0x80, CHR 0x85],
      [CHR 0xE2, CHR 0x80, CHR 0x86], [CHR 0xE2, CHR 0x80, CHR 0x87],
      [CHR 0xE2, CHR 0x80, CHR 0x88], [CHR 0xE2, CHR 0x80, CHR 0x89],
      [CHR 0xE2, CHR 0x80, CHR 0x8A], [CHR 0xE2, CHR 0x80, CHR 0xA8],
      [CHR 0xE2, CHR 0x80, CHR 0xA9], [CHR 0xE2, CHR 0x80, CHR 0xAF],
      [CHR 0xE2, CHR 0x81, CHR 0x9F], [CHR 0xE3, CHR 0x80, CHR 0x80],
      [CHR 0xEF, CHR 0xBB, CHR 0xBF]]"

text \<open>The number of bytes of the white space character a text begins with, or 0.\<close>

definition whiteSpaceLength :: "string \<Rightarrow> nat" where
  "whiteSpaceLength s =
     (case find (\<lambda>w. take (length w) s = w) whiteSpaceChars of
        None \<Rightarrow> 0
      | Some w \<Rightarrow> length w)"

function dropWhiteSpace :: "string \<Rightarrow> string" where
  "dropWhiteSpace s =
     (if whiteSpaceLength s = 0 then s else dropWhiteSpace (drop (whiteSpaceLength s) s))"
  by pat_completeness auto
termination
proof (relation "measure length")
  fix s :: string
  assume "whiteSpaceLength s \<noteq> 0"
  then obtain w where "find (\<lambda>w. take (length w) s = w) whiteSpaceChars = Some w" and "length w \<noteq> 0"
    by (auto simp: whiteSpaceLength_def split: option.splits)
  then have "take (length w) s = w" and "w \<noteq> []"
    by (auto simp: find_Some_iff)
  then have "s \<noteq> []" by auto
  with \<open>whiteSpaceLength s \<noteq> 0\<close> show "(drop (whiteSpaceLength s) s, s) \<in> measure length"
    by simp
qed simp

declare dropWhiteSpace.simps [simp del]

text \<open>Decimal digits, by character code.\<close>

definition isDigit :: "char \<Rightarrow> bool" where
  "isDigit c = (let n = (of_char c :: nat) in 48 \<le> n \<and> n \<le> 57)"

definition digitValue :: "char \<Rightarrow> nat" where
  "digitValue c = of_char c - 48"

definition decimalValue :: "string \<Rightarrow> nat" where
  "decimalValue ds = foldl (\<lambda>a c. 10 * a + digitValue c) 0 ds"

text \<open>
  \<open>parseInt(s, 10)\<close>: skip leading white space, read an optional sign, then the longest
  run of digits; what follows the digits is ignored. The result is \<open>NaN\<close> when there is
  no digit. The program's result is a double: where the digits denote more than
  \<open>MAX_SAFE_INTEGER\<close> it may be a rounded value, which is \<open>Inexact\<close> here.
\<close>

datatype parsed_number = NaN | Exact int | Inexact

definition parseInt :: "string \<Rightarrow> parsed_number" where
  "parseInt s =
     (let S = dropWhiteSpace s;
          neg = (S \<noteq> [] \<and> hd S = CHR ''-'');
          S1 = (if S \<noteq> [] \<and> (hd S = CHR ''-'' \<or> hd S = CHR ''+'') then tl S else S);
          Z = takeWhile isDigit S1
      in if Z = [] then NaN
         else if decimalValue Z > MAX_SAFE_INTEGER then Inexact
         else Exact (if neg then - int (decimalValue Z) else int (decimalValue Z)))"

text \<open>
  The decimal text of a number, as a template literal prints an integer of magnitude at
  most \<open>MAX_SAFE_INTEGER\<close>.
\<close>

definition digitChar :: "nat \<Rightarrow> char" where
  "digitChar n = ''0123456789'' ! n"

fun showNat :: "nat \<Rightarrow> string" where
  "showNat n = (if n < 10 then [digitChar n] else showNat (n div 10) @ [digitChar (n mod 10)])"

declare showNat.simps [simp del]

definition showInt :: "int \<Rightarrow> string" where
  "showInt i = (if i < 0 then CHR ''-'' # showNat (nat (- i)) else showNat (nat i))"

text \<open>
  \<open>buf.indexOf(byte, from)\<close>: the first position at or after \<open>from\<close> that holds the
  byte; \<open>None\<close> is \<open>-1\<close>. \<open>buf.slice(a, b)\<close> clamps to the buffer.
\<close>

definition indexOf :: "Buffer \<Rightarrow> char \<Rightarrow> nat \<Rightarrow> nat option" where
  "indexOf buf c from =
     (if c \<in> set (drop from buf)
      then Some (from + length (takeWhile (\<lambda>x. x \<noteq> c) (drop from buf)))
      else None)"

definition slice :: "Buffer \<Rightarrow> nat \<Rightarrow> nat \<Rightarrow> Buffer" where
  "slice buf a b = take (b - a) (drop a buf)"

text \<open>
  The keys that are represented, and \<open>dict[key] = value\<close> for such a key: the property
  is replaced or added, at its place in the order of the keys.
\<close>

definition isAscii :: "char \<Rightarrow> bool" where
  "isAscii c = ((of_char c :: nat) < 128)"

definition key_represented :: "string \<Rightarrow> bool" where
  "key_represented key = (list_all isAscii key \<and> key \<noteq> ''__proto__'')"

fun dict_set :: "(string \<times> 'v) list \<Rightarrow> string \<Rightarrow> 'v \<Rightarrow> (string \<times> 'v) list" where
  "dict_set [] k v = [(k, v)]"
| "dict_set ((k', v') # d) k v =
     (if k' = k then (k, v) # d
      else if k < k' then (k, v) # (k', v') # d
      else (k', v') # dict_set d k v)"

subsection \<open>Decoding\<close>

text \<open>
  The parser object is its buffer \<open>data\<close> and its \<open>position\<close>; every parsing method
  returns the value with the new position, or the error it throws.
\<close>

definition parseString :: "Buffer \<Rightarrow> nat \<Rightarrow> bencode_error + (Buffer \<times> nat)" where
  "parseString dat position =
     (case indexOf dat (CHR '':'') position of
        None \<Rightarrow> Inl StringMissingColon
      | Some colonIndex \<Rightarrow>
          (case parseInt (slice dat position colonIndex) of
             NaN \<Rightarrow> Inl InvalidStringLength
           | Inexact \<Rightarrow> Inl OutsideModel
           | Exact len \<Rightarrow>
               if len < 0 then Inl InvalidStringLength
               else Inr (slice dat (colonIndex + 1) (colonIndex + 1 + nat len),
                         colonIndex + 1 + nat len)))"

definition parseInteger :: "Buffer \<Rightarrow> nat \<Rightarrow> bencode_error + (int \<times> nat)" where
  "parseInteger dat position =
     (case indexOf dat (CHR ''e'') (position + 1) of
        None \<Rightarrow> Inl IntegerMissingE
      | Some endIndex \<Rightarrow>
          (case parseInt (slice dat (position + 1) endIndex) of
             NaN \<Rightarrow> Inl InvalidInteger
           | Inexact \<Rightarrow> Inl OutsideModel
           | Exact number \<Rightarrow> Inr (number, endIndex + 1)))"

text \<open>
  \<open>parseValue\<close>, and the \<open>while\<close> loops of \<open>parseList\<close> and \<open>parseDictionary\<close>. The
  recursion is bounded by a fuel argument, which each call passes on reduced by one;
  \<open>decode\<close> supplies enough of it for every buffer (\<open>decode_fuel\<close> below). Reading
  \<open>data[position]\<close> beyond the buffer gives \<open>undefined\<close>, which is none of the four
  leading characters.
\<close>

fun parseValue :: "nat \<Rightarrow> Buffer \<Rightarrow> nat \<Rightarrow> bencode_error + (BencodeValue \<times> nat)"
  and parseList_loop ::
    "nat \<Rightarrow> Buffer \<Rightarrow> nat \<Rightarrow> BencodeValue list \<Rightarrow> bencode_error + (BencodeValue list \<times> nat)"
  and parseDictionary_loop ::
    "nat \<Rightarrow> Buffer \<Rightarrow> nat \<Rightarrow> (string \<times> BencodeValue) list
       \<Rightarrow> bencode_error + ((string \<times> BencodeValue) list \<times> nat)"
where
  "parseValue 0 dat position = Inl OutOfFuel"
| "parseValue (Suc fuel) dat position =
     (if position \<ge> length dat then Inl UnexpectedChar
      else if isDigit (dat ! position) then
        (case parseString dat position of
           Inl e \<Rightarrow> Inl e
         | Inr (b, position') \<Rightarrow> Inr (BBuffer b, position'))
      else if dat ! position = CHR ''i'' then
        (case parseInteger dat position of
           Inl e \<Rightarrow> Inl e
         | Inr (n, position') \<Rightarrow> Inr (BNumber n, position'))
      else if dat ! position = CHR ''l'' then
        (case parseList_loop fuel dat (position + 1) [] of
           Inl e \<Rightarrow> Inl e
         | Inr (list, position') \<Rightarrow>
             if position' \<ge> length dat then Inl ListMissingE
             else Inr (BList list, position' + 1))
      else if dat ! position = CHR ''d'' then
        (case parseDictionary_loop fuel dat (position + 1) [] of
           Inl e \<Rightarrow> Inl e
         | Inr (dict, position') \<Rightarrow>
             if position' \<ge> length dat then Inl DictMissingE
             else Inr (BDict dict, position' + 1))
      else Inl UnexpectedChar)"
| "parseList_loop 0 dat position list = Inl OutOfFuel"
| "parseList_loop (Suc fuel) dat position list =
     (if position < length dat \<and> dat ! position \<noteq> CHR ''e'' then
        (case parseValue fuel dat position of
           Inl e \<Rightarrow> Inl e
         | Inr (v, position') \<Rightarrow> parseList_loop fuel dat position' (list @ [v]))
      else Inr (list, position))"
| "parseDictionary_loop 0 dat position dict = Inl OutOfFuel"
| "parseDictionary_loop (Suc fuel) dat position dict =
     (if position < length dat \<and> dat ! position \<noteq> CHR ''e'' then
        (case parseString dat position of
           Inl e \<Rightarrow> Inl e
         | Inr (keyBuffer, position1) \<Rightarrow>
             (case parseValue fuel dat position1 of
                Inl e \<Rightarrow> Inl e
              | Inr (v, position') \<Rightarrow>
                  if key_represented keyBuffer
                  then parseDictionary_loop fuel dat position' (dict_set dict keyBuffer v)
                  else Inl OutsideModel))
      else Inr (dict, position))"

definition decode_fuel :: "Buffer \<Rightarrow> nat" where
  "decode_fuel dat = 2 * length dat + 2"

text \<open>\<open>BencodeParser.decode\<close>: the first value of the buffer; what follows it is ignored.\<close>

definition decode :: "Buffer \<Rightarrow> bencode_error + BencodeValue" where
  "decode dat =
     (case parseValue (decode_fuel dat) dat 0 of
        Inl e \<Rightarrow> Inl e
      | Inr (v, position) \<Rightarrow> Inr v)"

subsection \<open>Encoding\<close>

definition encodeString :: "string \<Rightarrow> Buffer" where
  "encodeString str = showNat (length str) @ '':'' @ str"

definition encodeBuffer :: "Buffer \<Rightarrow> Buffer" where
  "encodeBuffer buf = showNat (length buf) @ '':'' @ buf"

definition encodeInteger :: "int \<Rightarrow> Buffer" where
  "encodeInteger num = ''i'' @ showInt num @ ''e''"

text \<open>
  \<open>encode\<close>. For a dictionary the keys are sorted (\<open>Object.keys(dict).sort()\<close>) and
  each value is looked up by its key; a sorted key is a key of the object, so the lookup
  finds it.
\<close>

function encode :: "BencodeValue \<Rightarrow> Buffer" where
  "encode (BString str) = encodeString str"
| "encode (BNumber num) = encodeInteger num"
| "encode (BBuffer buf) = encodeBuffer buf"
| "encode (BList list) = ''l'' @ concat (map encode list) @ ''e''"
| "encode (BDict dict) =
     ''d'' @ concat (map (\<lambda>key. encodeString key
                            @ (case map_of dict key of None \<Rightarrow> [] | Some v \<Rightarrow> encode v))
                      (sort (map fst dict)))
       @ ''e''"
  by pat_completeness auto
termination
proof (relation "measure size")
  fix dict :: "(string \<times> BencodeValue) list" and key v
  assume "map_of dict key = Some v"
  then have "(key, v) \<in> set dict" by (rule map_of_SomeD)
  then have "size v < size (BDict dict)"
    by (induction dict) auto
  then show "(v, BDict dict) \<in> measure size" by simp
next
  fix list :: "BencodeValue list" and x
  assume "x \<in> set list"
  then have "size x < size (BList list)"
    by (induction list) auto
  then show "(x, BList list) \<in> measure size" by simp
qed simp

declare encode.simps(5) [simp del]

subsection \<open>The values of canonical input\<close>

text \<open>
  The values the decoder produces from well-formed (canonical) bencode, as far as they
  are represented: no JavaScript string outside a dictionary key (the decoder returns
  every byte string as a \<open>Buffer\<close>), integers of magnitude at most
  \<open>MAX_SAFE_INTEGER\<close>, buffers and keys of a length a \<open>Buffer\<close> can have, and
  dictionaries whose keys are represented and strictly ascending.
\<close>

fun wellformed_value :: "BencodeValue \<Rightarrow> bool" where
  "wellformed_value (BString str) = False"
| "wellformed_value (BNumber num) = (\<bar>num\<bar> \<le> int MAX_SAFE_INTEGER)"
| "wellformed_value (BBuffer buf) = (length buf \<le> MAX_SAFE_INTEGER)"
| "wellformed_value (BList list) = list_all wellformed_value list"
| "wellformed_value (BDict dict) =
     (sorted (map fst dict) \<and> distinct (map fst dict)
      \<and> list_all (\<lambda>key. key_represented key \<and> length key \<le> MAX_SAFE_INTEGER) (map fst dict)
      \<and> list_all wellformed_value (map snd dict))"

section \<open>Metainfo loader (\<open>core/torrent.ts\<close>)\<close>

text \<open>
  \<open>extractRawInfoDict\<close>. The \<open>for\<close> loop looks for the six bytes \<open>4:info\<close> at the
  positions \<open>0\<close> to \<open>length - 7\<close> (the bound uses the seven-byte pattern \<open>4:infod\<close>)
  and stops at the first match; the value that starts after the match is parsed and
  encoded again. Every error is rethrown as one error of the loader.
\<close>

datatype torrent_error = InfoNotFound | InfoNotParsed bencode_error

fun find_info_loop :: "Buffer \<Rightarrow> nat \<Rightarrow> nat \<Rightarrow> nat option" where
  "find_info_loop torrentBuffer i 0 = None"
| "find_info_loop torrentBuffer i (Suc n) =
     (if slice torrentBuffer i (i + 6) = ''4:info'' then Some (i + 6)
      else find_info_loop torrentBuffer (i + 1) n)"

definition extractRawInfoDict :: "Buffer \<Rightarrow> torrent_error + Buffer" where
  "extractRawInfoDict torrentBuffer =
     (case find_info_loop torrentBuffer 0 (length torrentBuffer - 6) of
        None \<Rightarrow> Inl InfoNotFound
      | Some infoStart \<Rightarrow>
          (case decode (drop infoStart torrentBuffer) of
             Inl e \<Rightarrow> Inl (InfoNotParsed e)
           | Inr infoValue \<Rightarrow> Inr (encode infoValue)))"

text \<open>\<open>CryptoUtils.calculateInfoHash\<close>, and the info hash the loader stores.\<close>

definition calculateInfoHash :: "digest \<Rightarrow> Buffer \<Rightarrow> Buffer" where
  "calculateInfoHash h infoDict = h infoDict"

definition loadInfoHash :: "digest \<Rightarrow> Buffer \<Rightarrow> torrent_error + Buffer" where
  "loadInfoHash h torrentBuffer =
     (case extractRawInfoDict torrentBuffer of
        Inl e \<Rightarrow> Inl e
      | Inr rawInfoDict \<Rightarrow> Inr (calculateInfoHash h rawInfoDict))"

text \<open>
  A single-file metainfo whose \<open>comment\<close> holds the text \<open>4:infoi1e\<close>: the bytes of its
  \<open>info\<close> value, the value they decode to, and the whole file.
\<close>

definition info_raw_ex :: Buffer where
  "info_raw_ex = ''d6:lengthi4e4:name1:f12:piece lengthi4e6:pieces20:01234567890123456789e''"

definition info_value_ex :: BencodeValue where
  "info_value_ex =
     BDict [(''length'', BNumber 4), (''name'', BBuffer ''f''), (''piece length'', BNumber 4),
            (''pieces'', BBuffer ''01234567890123456789'')]"

definition torrent_ex :: Buffer where
  "torrent_ex = ''d8:announce9:http://t/7:comment9:4:infoi1e4:info'' @ info_raw_ex @ ''e''"

definition torrent_value_ex :: BencodeValue where
  "torrent_value_ex =
     BDict [(''announce'', BBuffer ''http://t/''), (''comment'', BBuffer ''4:infoi1e''),
            (''info'', info_value_ex)]"


section \<open>Tracker client (\<open>network/tracker.ts\<close>)\<close>

text \<open>
  A peer endpoint is the object \<open>{ip, port}\<close>. What a tracker answers is outside the
  program: \<open>contactUdpTracker\<close> and \<open>contactHttpTracker\<close> are parameters here, giving
  for a URL either the error the attempt throws or the peers it returns.
\<close>

record PeerEndpoint =
  ip :: string
  port :: nat

type_synonym contact = "string \<Rightarrow> string + PeerEndpoint list"

datatype tracker_error = NoPeersFromAnyTracker

definition startsWith :: "string \<Rightarrow> string \<Rightarrow> bool" where
  "startsWith s prefix = (take (length prefix) s = prefix)"

text \<open>
  The promise \<open>getPeers\<close> creates for one tracker URL. It never rejects: an error of the
  attempt is caught and gives the empty list, and so does a URL with another scheme, for
  which no attempt is made.
\<close>

definition trackerPromise :: "contact \<Rightarrow> contact \<Rightarrow> string \<Rightarrow> PeerEndpoint list" where
  "trackerPromise contactUdpTracker contactHttpTracker trackerUrl =
     (if startsWith trackerUrl ''udp://'' then
        (case contactUdpTracker trackerUrl of Inl error \<Rightarrow> [] | Inr peers \<Rightarrow> peers)
      else if startsWith trackerUrl ''http://'' \<or> startsWith trackerUrl ''https://'' then
        (case contactHttpTracker trackerUrl of Inl error \<Rightarrow> [] | Inr peers \<Rightarrow> peers)
      else [])"

text \<open>The attempt made for a URL, if any, threw an error.\<close>

definition attemptFailed :: "contact \<Rightarrow> contact \<Rightarrow> string \<Rightarrow> bool" where
  "attemptFailed contactUdpTracker contactHttpTracker trackerUrl =
     (if startsWith trackerUrl ''udp://'' then isl (contactUdpTracker trackerUrl)
      else if startsWith trackerUrl ''http://'' \<or> startsWith trackerUrl ''https://'' then
        isl (contactHttpTracker trackerUrl)
      else False)"

text \<open>
  The key \<open>`${peer.ip}:${peer.port}`\<close>, and the \<open>Map\<close> of unique peers as the list of
  its entries in insertion order.
\<close>

definition peerKey :: "PeerEndpoint \<Rightarrow> string" where
  "peerKey peer = ip peer @ '':'' @ showNat (port peer)"

fun addPeers :: "(string \<times> PeerEndpoint) list \<Rightarrow> PeerEndpoint list \<Rightarrow> (string \<times> PeerEndpoint) list" where
  "addPeers uniquePeers [] = uniquePeers"
| "addPeers uniquePeers (peer # peers) =
     addPeers (if map_of uniquePeers (peerKey peer) = None
               then uniquePeers @ [(peerKey peer, peer)]
               else uniquePeers) peers"

fun collectPeers :: "(string \<times> PeerEndpoint) list \<Rightarrow> PeerEndpoint list list \<Rightarrow> (string \<times> PeerEndpoint) list" where
  "collectPeers uniquePeers [] = uniquePeers"
| "collectPeers uniquePeers (result # results) =
     collectPeers (if length result > 0 then addPeers uniquePeers result else uniquePeers) results"

definition getPeers :: "contact \<Rightarrow> contact \<Rightarrow> TorrentMetadata \<Rightarrow> tracker_error + PeerEndpoint list" where
  "getPeers contactUdpTracker contactHttpTracker torrentMetadata =
     (let results = map (trackerPromise contactUdpTracker contactHttpTracker)
                      (announceList torrentMetadata);
          uniquePeersList = map snd (collectPeers [] results)
      in if length uniquePeersList = 0 then Inl NoPeersFromAnyTracker
         else Inr uniquePeersList)"

text \<open>
  The map of unique peers is keyed by \<open>peerKey\<close> and holds no peer twice (the invariant
  of the loop).
\<close>

definition keyed :: "(string \<times> PeerEndpoint) list \<Rightarrow> bool" where
  "keyed m \<longleftrightarrow> (\<forall>(k, p) \<in> set m. k = peerKey p) \<and> distinct (map snd m)"

text \<open>
  Example answers: the UDP tracker times out; the first HTTP tracker returns two peers,
  the second returns one of them again and a third; a tracker that answers with no peers.
\<close>

definition md_trackers :: "string list \<Rightarrow> TorrentMetadata" where
  "md_trackers urls = \<lparr> infoHash = [], pieceHashes = [], totalLength = 0, pieceLength = 0,
                         fileName = ''f'', announceList = urls \<rparr>"

definition udp_ex :: contact where
  "udp_ex url = Inl ''Timeout conectando a tracker UDP''"

definition http_ex :: contact where
  "http_ex url =
     (if url = ''http://a/'' then Inr [\<lparr>ip = ''10.0.0.1'', port = 6881\<rparr>, \<lparr>ip = ''10.0.0.2'', port = 6881\<rparr>]
      else if url = ''http://b/'' then Inr [\<lparr>ip = ''10.0.0.2'', port = 6881\<rparr>, \<lparr>ip = ''10.0.0.2'', port = 51413\<rparr>]
      else Inr [])"

section \<open>Peer session (\<open>network/peer.ts\<close>)\<close>

text \<open>
  \<open>Peer\<close> extends the endpoint with the session's flags; \<open>choked\<close> is the flag the
  specification calls \<open>am_choked\<close>. The field \<open>id\<close> is named \<open>id_peer\<close> here.
\<close>

record Peer = PeerEndpoint +
  id_peer :: Buffer
  choked :: bool
  interested :: bool
  choking :: bool
  peerInterested :: bool
  bitfield :: "Buffer option"

text \<open>The events a session emits to its listeners.\<close>

datatype peer_event =
    EvConnected
  | EvUnchoked
  | EvHave nat
  | EvBitfield Buffer
  | EvPiece nat nat Buffer
  | EvError string
  | EvDisconnected

text \<open>
  The socket is known by what has been written to it. Each write is recorded with the
  value the \<open>choked\<close> flag had when \<open>socket.write\<close> was called; the program does not
  store this value, it is recorded to state when a message was sent.
\<close>

record socket_write =
  wire :: Buffer
  choked_at_write :: bool

record PeerClient =
  peer :: Peer
  pcMetadata :: TorrentMetadata
  peerId :: Buffer
  socket :: "socket_write list option"
  connected :: bool
  handshakeCompleted :: bool
  messageBuffer :: Buffer
  emitted :: "peer_event list"

definition newPeerClient :: "Peer \<Rightarrow> TorrentMetadata \<Rightarrow> Buffer \<Rightarrow> PeerClient" where
  "newPeerClient p m pid =
     \<lparr> peer = p, pcMetadata = m, peerId = pid, socket = None, connected = False,
       handshakeCompleted = False, messageBuffer = [], emitted = [] \<rparr>"

definition emit :: "PeerClient \<Rightarrow> peer_event \<Rightarrow> PeerClient" where
  "emit pc ev = pc \<lparr> emitted := emitted pc @ [ev] \<rparr>"

subsection \<open>Wire format\<close>

text \<open>
  Four bytes, big-endian. \<open>Buffer.writeUInt32BE\<close> throws a \<open>RangeError\<close> for a value
  that does not fit (\<open>None\<close>). \<open>readUInt32BE\<close> is called on buffers whose length has
  been checked.
\<close>

definition be32 :: "nat \<Rightarrow> Buffer" where
  "be32 v = [char_of (v div 16777216), char_of (v div 65536), char_of (v div 256), char_of v]"

definition writeUInt32BE :: "nat \<Rightarrow> Buffer option" where
  "writeUInt32BE v = (if v < 4294967296 then Some (be32 v) else None)"

definition readUInt32BE :: "Buffer \<Rightarrow> nat \<Rightarrow> nat" where
  "readUInt32BE buf off = foldl (\<lambda>a c. 256 * a + of_char c) 0 (take 4 (drop off buf))"

text \<open>The message ids of \<open>MessageType\<close>.\<close>

definition CHOKE :: nat where "CHOKE = 0"
definition UNCHOKE :: nat where "UNCHOKE = 1"
definition INTERESTED :: nat where "INTERESTED = 2"
definition NOT_INTERESTED :: nat where "NOT_INTERESTED = 3"
definition HAVE :: nat where "HAVE = 4"
definition BITFIELD :: nat where "BITFIELD = 5"
definition REQUEST :: nat where "REQUEST = 6"
definition PIECE :: nat where "PIECE = 7"

text \<open>
  \<open>createMessage\<close>: length prefix, id, payload. At its two call sites the length is 1
  or 13, so writing the prefix does not throw.
\<close>

definition createMessage :: "nat \<Rightarrow> Buffer \<Rightarrow> Buffer" where
  "createMessage messageType payload = be32 (length payload + 1) @ [char_of messageType] @ payload"

text \<open>A buffer written to the socket is a \<open>request\<close> message: the byte after the prefix is 6.\<close>

definition isRequest :: "Buffer \<Rightarrow> bool" where
  "isRequest buf = (length buf \<ge> 5 \<and> of_char (buf ! 4) = REQUEST)"

subsection \<open>Sending\<close>

definition sendData :: "PeerClient \<Rightarrow> Buffer \<Rightarrow> PeerClient" where
  "sendData pc dat =
     (case socket pc of
        None \<Rightarrow> pc
      | Some written \<Rightarrow>
          if connected pc
          then pc \<lparr> socket := Some (written @ [\<lparr> wire = dat, choked_at_write = choked (peer pc) \<rparr>]) \<rparr>
          else pc)"

definition PROTOCOL_STRING :: string where
  "PROTOCOL_STRING = ''BitTorrent protocol''"

definition sendHandshake :: "PeerClient \<Rightarrow> PeerClient" where
  "sendHandshake pc =
     sendData pc ([char_of (length PROTOCOL_STRING)] @ PROTOCOL_STRING @ replicate 8 (CHR 0x00)
                    @ infoHash (pcMetadata pc) @ peerId pc)"

definition sendInterested :: "PeerClient \<Rightarrow> PeerClient" where
  "sendInterested pc =
     (let pc1 = sendData pc (createMessage INTERESTED [])
      in pc1 \<lparr> peer := (peer pc1) \<lparr> interested := True \<rparr> \<rparr>)"

text \<open>
  \<open>requestBlock\<close>: \<open>None\<close> when one of the three fields does not fit in 32 bits; the
  error is thrown before anything is written.
\<close>

definition requestBlock :: "PeerClient \<Rightarrow> nat \<Rightarrow> nat \<Rightarrow> nat \<Rightarrow> PeerClient option" where
  "requestBlock pc pieceIndex begin len =
     (case (writeUInt32BE pieceIndex, writeUInt32BE begin, writeUInt32BE len) of
        (Some a, Some b, Some c) \<Rightarrow> Some (sendData pc (createMessage REQUEST (a @ b @ c)))
      | _ \<Rightarrow> None)"

text \<open>
  The \<open>while\<close> loop of \<open>requestPiece\<close>, from a given offset (the parameter
  \<open>pieceLength\<close> is named \<open>pieceLen\<close>). The second component tells
  whether a \<open>RangeError\<close> ended it; what was written before stays written.
\<close>

function requestPiece_loop :: "PeerClient \<Rightarrow> nat \<Rightarrow> nat \<Rightarrow> nat \<Rightarrow> PeerClient \<times> bool" where
  "requestPiece_loop pc pieceIndex pieceLen offset =
     (if offset < pieceLen then
        (let blockSize = min 16384 (pieceLen - offset) in
         case requestBlock pc pieceIndex offset blockSize of
           None \<Rightarrow> (pc, True)
         | Some pc' \<Rightarrow> requestPiece_loop pc' pieceIndex pieceLen (offset + blockSize))
      else (pc, False))"
  by pat_completeness auto
termination
  by (relation "measure (\<lambda>(pc, pieceIndex, pieceLen, offset). pieceLen - offset)") auto

declare requestPiece_loop.simps [simp del]

definition requestPiece :: "PeerClient \<Rightarrow> nat \<Rightarrow> nat \<Rightarrow> PeerClient \<times> bool" where
  "requestPiece pc pieceIndex pieceLen =
     (if choked (peer pc) then (pc, False)
      else requestPiece_loop pc pieceIndex pieceLen 0)"

subsection \<open>Receiving\<close>

definition handlePieceMessage :: "PeerClient \<Rightarrow> Buffer \<Rightarrow> PeerClient" where
  "handlePieceMessage pc payload =
     (if length payload < 8 then pc
      else emit pc (EvPiece (readUInt32BE payload 0) (readUInt32BE payload 4) (drop 8 payload)))"

definition handleMessage :: "PeerClient \<Rightarrow> nat \<Rightarrow> Buffer \<Rightarrow> PeerClient" where
  "handleMessage pc messageType payload =
     (if messageType = CHOKE then pc \<lparr> peer := (peer pc) \<lparr> choked := True \<rparr> \<rparr>
      else if messageType = UNCHOKE then
        emit (pc \<lparr> peer := (peer pc) \<lparr> choked := False \<rparr> \<rparr>) EvUnchoked
      else if messageType = INTERESTED then pc \<lparr> peer := (peer pc) \<lparr> peerInterested := True \<rparr> \<rparr>
      else if messageType = NOT_INTERESTED then
        pc \<lparr> peer := (peer pc) \<lparr> peerInterested := False \<rparr> \<rparr>
      else if messageType = HAVE then
        (if length payload = 4 then emit pc (EvHave (readUInt32BE payload 0)) else pc)
      else if messageType = BITFIELD then
        emit (pc \<lparr> peer := (peer pc) \<lparr> bitfield := Some payload \<rparr> \<rparr>) (EvBitfield payload)
      else if messageType = PIECE then handlePieceMessage pc payload
      else pc)"

definition handleHandshake :: "PeerClient \<Rightarrow> PeerClient" where
  "handleHandshake pc =
     (let handshake = slice (messageBuffer pc) 0 68;
          pc1 = pc \<lparr> messageBuffer := drop 68 (messageBuffer pc) \<rparr>;
          protocolLength = (of_char (handshake ! 0) :: nat);
          protocol = slice handshake 1 (1 + protocolLength);
          infoHash' = slice handshake 28 48;
          peerId' = slice handshake 48 68
      in if protocol \<noteq> PROTOCOL_STRING then
           emit pc1 (EvError (''Protocolo inv'' @ [CHR 0xC3, CHR 0xA1] @ ''lido en handshake''))
         else if infoHash' \<noteq> infoHash (pcMetadata pc1) then emit pc1 (EvError ''Info hash no coincide'')
         else emit (sendInterested
                      (pc1 \<lparr> peer := (peer pc1) \<lparr> id_peer := peerId' \<rparr>, handshakeCompleted := True \<rparr>))
                EvConnected)"

text \<open>
  \<open>processMessages\<close>: the loop takes one framed message after another from the front of
  \<open>messageBuffer\<close>; handling a message does not touch the buffer.
\<close>

function processMessages :: "PeerClient \<Rightarrow> PeerClient" where
  "processMessages pc =
     (if length (messageBuffer pc) \<ge> 4 then
        (let messageLength = readUInt32BE (messageBuffer pc) 0 in
         if messageLength = 0 then
           processMessages (pc \<lparr> messageBuffer := drop 4 (messageBuffer pc) \<rparr>)
         else if length (messageBuffer pc) < 4 + messageLength then pc
         else
           (let messageData = slice (messageBuffer pc) 4 (4 + messageLength);
                pc1 = pc \<lparr> messageBuffer := drop (4 + messageLength) (messageBuffer pc) \<rparr>
            in processMessages
                 (handleMessage pc1 (of_char (messageData ! 0)) (drop 1 messageData))))
      else pc)"
  by pat_completeness auto
termination
proof (relation "measure (\<lambda>pc. length (messageBuffer pc))")
  fix pc :: PeerClient and messageLength messageData pc1
  assume "4 \<le> length (messageBuffer pc)"
    and "pc1 = pc \<lparr> messageBuffer := drop (4 + messageLength) (messageBuffer pc) \<rparr>"
  moreover have "messageBuffer (handleMessage q t p) = messageBuffer q" for q t p
    by (simp add: handleMessage_def handlePieceMessage_def emit_def)
  ultimately show "(handleMessage pc1 (of_char (messageData ! 0)) (drop 1 messageData), pc)
                     \<in> measure (\<lambda>pc. length (messageBuffer pc))"
    by simp
qed simp_all

declare processMessages.simps [simp del]

definition handleData :: "PeerClient \<Rightarrow> Buffer \<Rightarrow> PeerClient" where
  "handleData pc dat =
     (let pc1 = pc \<lparr> messageBuffer := messageBuffer pc @ dat \<rparr>;
          pc2 = (if \<not> handshakeCompleted pc1 \<and> length (messageBuffer pc1) \<ge> 68
                 then handleHandshake pc1 else pc1)
      in if handshakeCompleted pc2 then processMessages pc2 else pc2)"

subsection \<open>Connection\<close>

text \<open>
  \<open>connect\<close> creates the socket; \<open>onConnect\<close> is the callback of an established
  connection, \<open>onClose\<close> and \<open>onError\<close> are the handlers of the socket's \<open>close\<close>
  and \<open>error\<close> events.
\<close>

definition connect :: "PeerClient \<Rightarrow> PeerClient" where
  "connect pc = pc \<lparr> socket := Some [] \<rparr>"

definition onConnect :: "PeerClient \<Rightarrow> PeerClient" where
  "onConnect pc = sendHandshake (pc \<lparr> connected := True \<rparr>)"

definition onClose :: "PeerClient \<Rightarrow> PeerClient" where
  "onClose pc = emit (pc \<lparr> connected := False \<rparr>) EvDisconnected"

definition onError :: "PeerClient \<Rightarrow> string \<Rightarrow> PeerClient" where
  "onError pc message = emit pc (EvError message)"

definition disconnect :: "PeerClient \<Rightarrow> PeerClient" where
  "disconnect pc = (if socket pc \<noteq> None then pc \<lparr> connected := False \<rparr> else pc)"

subsection \<open>The sessions\<close>

text \<open>
  The states of a session: a new client, and what the handlers and the public methods
  make of a state. Listeners run between the steps and act on the client through its
  public methods, so their calls are steps of their own; \<open>handleMessage\<close> and
  \<open>handleHandshake\<close> are steps as well as \<open>handleData\<close>, which is made of them.
\<close>

inductive_set sessions :: "PeerClient set" where
  new: "newPeerClient p m pid \<in> sessions"
| connect: "pc \<in> sessions \<Longrightarrow> connect pc \<in> sessions"
| onConnect: "pc \<in> sessions \<Longrightarrow> onConnect pc \<in> sessions"
| onClose: "pc \<in> sessions \<Longrightarrow> onClose pc \<in> sessions"
| onError: "pc \<in> sessions \<Longrightarrow> onError pc message \<in> sessions"
| disconnect: "pc \<in> sessions \<Longrightarrow> disconnect pc \<in> sessions"
| handleData: "pc \<in> sessions \<Longrightarrow> handleData pc dat \<in> sessions"
| handleHandshake: "pc \<in> sessions \<Longrightarrow> handleHandshake pc \<in> sessions"
| handleMessage: "pc \<in> sessions \<Longrightarrow> handleMessage pc messageType payload \<in> sessions"
| requestPiece: "pc \<in> sessions \<Longrightarrow> fst (requestPiece pc pieceIndex pieceLen) \<in> sessions"

text \<open>What has been written to the current socket.\<close>

definition written :: "PeerClient \<Rightarrow> socket_write list" where
  "written pc = (case socket pc of None \<Rightarrow> [] | Some ws \<Rightarrow> ws)"

text \<open>No \<open>request\<close> message in the log was written while the flag was set.\<close>

definition requests_unchoked :: "PeerClient \<Rightarrow> bool" where
  "requests_unchoked pc = list_all (\<lambda>w. \<not> (isRequest (wire w) \<and> choked_at_write w)) (written pc)"

text \<open>
  An example session: the peer the coordinator creates (choked, not interested), a
  metadata with a known info hash, and the 68 bytes of the remote handshake followed by
  an \<open>unchoke\<close> message.
\<close>

definition peer_ex :: Peer where
  "peer_ex = \<lparr> ip = ''10.0.0.1'', port = 6881, id_peer = replicate 20 (CHR 0x00), choked = True,
               interested = False, choking = True, peerInterested = False, bitfield = None \<rparr>"

definition md_peer_ex :: TorrentMetadata where
  "md_peer_ex = \<lparr> infoHash = ''HHHHHHHHHHHHHHHHHHHH'', pieceHashes = [], totalLength = 0,
                  pieceLength = 0, fileName = ''f'', announceList = [] \<rparr>"

definition reply_ex :: Buffer where
  "reply_ex = [CHR 0x13] @ ''BitTorrent protocol'' @ replicate 8 (CHR 0x00)
                @ ''HHHHHHHHHHHHHHHHHHHH'' @ ''RRRRRRRRRRRRRRRRRRRR''
                @ [CHR 0x00, CHR 0x00, CHR 0x00, CHR 0x01, CHR 0x01]"

definition session_ex :: PeerClient where
  "session_ex =
     handleData (onConnect (connect (newPeerClient peer_ex md_peer_ex ''PPPPPPPPPPPPPPPPPPPP'')))
       reply_ex"

section \<open>Properties of the piece store\<close>

lemma new_store_one: "newPieceManager (md_one h) = Some (store_one h)"
  by (simp add: newPieceManager_def initializePieces_def md_one_def pieceCount_def
        initPiece_def ceil_div_def store_one_def)

lemma new_store_two: "newPieceManager md_two = Some store_two"
  by (simp add: newPieceManager_def initializePieces_def md_two_def pieceCount_def
        initPiece_def ceil_div_def store_two_def upt_rec)

lemmas store_eval =
  getNextPieceToDownload_def piece_at_def piece_put_def addBlockToPiece_def assemblePiece_def
  blocks_has_def blocks_set_def blocks_get_def verifyHash_def Let_def

lemma store_one_requested_eq:
  "store_one_requested h =
     store_one h \<lparr> pieces := [(pieces (store_one h) ! 0) \<lparr> requested := True \<rparr>] \<rparr>"
  by (simp add: store_one_requested_def store_one_def store_eval)

lemma piece_at_None_iff: "piece_at ps i = None \<longleftrightarrow> (i < 0 \<or> int (length ps) \<le> i)"
  by (auto simp: piece_at_def)

lemma piece_at_Some:
  "piece_at ps i = Some p \<Longrightarrow> 0 \<le> i \<and> nat i < length ps \<and> p = ps ! nat i"
  by (auto simp: piece_at_def split: if_splits)

lemma piece_at_put_same:
  "piece_at (pieces pm) i = Some p \<Longrightarrow> piece_at (pieces (piece_put pm i q)) i = Some q"
  by (auto simp: piece_at_def piece_put_def split: if_splits)

lemma piece_at_put_other:
  "j \<noteq> i \<Longrightarrow> 0 \<le> i \<Longrightarrow> piece_at (pieces (piece_put pm i q)) j = piece_at (pieces pm) j"
  by (auto simp: piece_at_def piece_put_def nth_list_update)

subsection \<open>Completion and the requested flag\<close>

lemma assemblePiece_pieces:
  assumes "piece_at (pieces pm) i = Some p" and "assemblePiece h pm i = (True, pm')"
  shows "\<exists>d. pieces pm' = (pieces pm) [nat i := p \<lparr> data := d, completed := True \<rparr>]"
  using assms
  by (auto simp: assemblePiece_def Let_def piece_put_def split: option.splits if_splits)

lemma assemblePiece_True:
  assumes "piece_at (pieces pm) i = Some p" and "assemblePiece h pm i = (True, pm')"
  shows "\<exists>p'. piece_at (pieces pm') i = Some p' \<and> completed p' \<and> requested p' = requested p
           \<and> (\<forall>j. j \<noteq> i \<longrightarrow> piece_at (pieces pm') j = piece_at (pieces pm) j)"
proof -
  from assms(1) have i0: "0 \<le> i" "nat i < length (pieces pm)"
    by (auto dest: piece_at_Some)
  from assemblePiece_pieces [OF assms] obtain d where
    ps: "pieces pm' = (pieces pm) [nat i := p \<lparr> data := d, completed := True \<rparr>]" ..
  have same: "piece_at (pieces pm') i = Some (p \<lparr> data := d, completed := True \<rparr>)"
    using i0 by (simp add: ps piece_at_def)
  have other: "\<And>j. j \<noteq> i \<Longrightarrow> piece_at (pieces pm') j = piece_at (pieces pm) j"
    using i0 by (auto simp: ps piece_at_def nth_list_update)
  from same other show ?thesis by simp
qed

text \<open>
  C1, as the code has it. A call of \<open>addBlockToPiece\<close> that completes a piece (it returns
  \<open>true\<close> for a piece that was not completed before) marks the piece completed and
  leaves its \<open>requested\<close> flag exactly as it was; no other piece changes. A piece that
  was handed out by the scheduler and then completes is therefore both completed and
  requested.
\<close>

theorem addBlock_completion_keeps_requested:
  assumes "piece_at (pieces pm) i = Some p" and "\<not> completed p"
    and "addBlockToPiece h pm i off b = (True, pm')"
  shows "\<exists>p'. piece_at (pieces pm') i = Some p' \<and> completed p' \<and> requested p' = requested p
           \<and> (\<forall>j. j \<noteq> i \<longrightarrow> piece_at (pieces pm') j = piece_at (pieces pm) j)"
proof -
  from assms(1) have i0: "0 \<le> i" by (auto dest: piece_at_Some)
  define p1 where "p1 = (if \<not> blocks_has (blocks p) off
                         then p \<lparr> blocks := blocks_set (blocks p) off b,
                                  receivedBlocks := receivedBlocks p + 1 \<rparr>
                         else p)"
  define pm1 where "pm1 = piece_put pm i p1"
  from assms have asm: "assemblePiece h pm1 i = (True, pm')"
    by (auto simp: addBlockToPiece_def Let_def p1_def pm1_def split: if_splits)
  have at1: "piece_at (pieces pm1) i = Some p1"
    unfolding pm1_def by (rule piece_at_put_same [OF assms(1)])
  have req1: "requested p1 = requested p" by (simp add: p1_def)
  have other1: "\<And>j. j \<noteq> i \<Longrightarrow> piece_at (pieces pm1) j = piece_at (pieces pm) j"
    unfolding pm1_def by (rule piece_at_put_other [OF _ i0])
  from assemblePiece_True [OF at1 asm] req1 other1 show ?thesis by auto
qed

theorem addBlock_completion_keeps_requested_witness:
  "\<forall>h. piece_at (pieces (store_one_requested h)) 0
          = Some ((pieces (store_one h) ! 0) \<lparr> requested := True \<rparr>)
      \<and> \<not> completed ((pieces (store_one h) ! 0) \<lparr> requested := True \<rparr>)
      \<and> fst (addBlockToPiece h (store_one_requested h) 0 0 ''abcd'')
      \<and> (\<exists>p'. piece_at (pieces (snd (addBlockToPiece h (store_one_requested h) 0 0 ''abcd''))) 0
                  = Some p'
             \<and> completed p' \<and> requested p')"
proof
  fix h
  let ?pm1 = "store_one_requested h"
  let ?p = "(pieces (store_one h) ! 0) \<lparr> requested := True \<rparr>"
  have a: "piece_at (pieces ?pm1) 0 = Some ?p"
    by (simp add: store_one_requested_eq piece_at_def)
  have b: "\<not> completed ?p" by (simp add: store_one_def)
  have r: "fst (addBlockToPiece h ?pm1 0 0 ''abcd'')"
    by (simp add: store_one_requested_eq) (simp add: store_one_def store_eval)
  then have c: "addBlockToPiece h ?pm1 0 0 ''abcd''
             = (True, snd (addBlockToPiece h ?pm1 0 0 ''abcd''))"
    by (simp add: prod_eq_iff)
  from addBlock_completion_keeps_requested [OF a b c] a b r
  show "piece_at (pieces ?pm1) 0 = Some ?p \<and> \<not> completed ?p
      \<and> fst (addBlockToPiece h ?pm1 0 0 ''abcd'')
      \<and> (\<exists>p'. piece_at (pieces (snd (addBlockToPiece h ?pm1 0 0 ''abcd''))) 0 = Some p'
             \<and> completed p' \<and> requested p')"
    by auto
qed

text \<open>
  C1 as stated fails. For every digest function \<open>h\<close>: the store of the one-piece torrent
  whose piece hash is \<open>h ''abcd''\<close> hands out piece 0, the block \<open>abcd\<close> arrives at
  offset 0, \<open>addBlockToPiece\<close> returns \<open>true\<close>, and the piece is then both completed
  and requested.
\<close>

theorem completed_and_requested_counterexample:
  "\<forall>h. newPieceManager (md_one h) = Some (store_one h)
      \<and> fst (addBlockToPiece h (store_one_requested h) 0 0 ''abcd'')
      \<and> completed (pieces (snd (addBlockToPiece h (store_one_requested h) 0 0 ''abcd'')) ! 0)
      \<and> requested (pieces (snd (addBlockToPiece h (store_one_requested h) 0 0 ''abcd'')) ! 0)"
  by (simp add: new_store_one store_one_requested_eq) (simp add: store_one_def store_eval)

subsection \<open>Sequential selection\<close>

text \<open>
  C4 as stated fails: in the store of the two-piece torrent, the first call hands out
  piece 0; piece 0 is then in flight, piece 1 is neither completed nor requested, and the
  second call returns nothing.
\<close>

theorem next_sequential_counterexample:
  "newPieceManager md_two = Some store_two
   \<and> fst (getNextPieceToDownload store_two) = Some ((pieces store_two ! 0) \<lparr> requested := True \<rparr>)
   \<and> \<not> completed (pieces (snd (getNextPieceToDownload store_two)) ! 1)
   \<and> \<not> requested (pieces (snd (getNextPieceToDownload store_two)) ! 1)
   \<and> fst (getNextPieceToDownload (snd (getNextPieceToDownload store_two))) = None"
  by (simp add: new_store_two) (simp add: store_two_def store_eval)

text \<open>
  C4, as the code has it. \<open>getNextPieceToDownload\<close> looks only at the piece at the
  current sequential position. When that piece is neither completed nor requested, it is
  marked requested and returned, and nothing else of the store changes; if every piece
  before the current position is completed, it is the lowest-indexed piece that is
  neither completed nor requested. When that piece is requested and not completed, or
  the position is past the last piece, the call returns nothing and leaves the store as
  it is, whatever the state of the other pieces.
\<close>

theorem getNextPieceToDownload_current:
  "(currentPieceIndex pm < length (pieces pm)
      \<and> \<not> completed (pieces pm ! currentPieceIndex pm)
      \<and> \<not> requested (pieces pm ! currentPieceIndex pm)
     \<longrightarrow> getNextPieceToDownload pm
           = (Some ((pieces pm ! currentPieceIndex pm) \<lparr> requested := True \<rparr>),
              pm \<lparr> pieces := (pieces pm) [currentPieceIndex pm :=
                                  (pieces pm ! currentPieceIndex pm) \<lparr> requested := True \<rparr>] \<rparr>)
         \<and> ((\<forall>j < currentPieceIndex pm. completed (pieces pm ! j)) \<longrightarrow>
              (\<forall>j < length (pieces pm).
                 \<not> completed (pieces pm ! j) \<and> \<not> requested (pieces pm ! j)
                 \<longrightarrow> currentPieceIndex pm \<le> j)))
   \<and> (currentPieceIndex pm < length (pieces pm)
      \<and> \<not> completed (pieces pm ! currentPieceIndex pm)
      \<and> requested (pieces pm ! currentPieceIndex pm)
     \<longrightarrow> getNextPieceToDownload pm = (None, pm))
   \<and> (length (pieces pm) \<le> currentPieceIndex pm
     \<longrightarrow> getNextPieceToDownload pm = (None, pm))"
  apply (auto simp: getNextPieceToDownload_def piece_at_def piece_put_def Let_def)
  by (meson not_le)

theorem getNextPieceToDownload_current_witness:
  "\<forall>h. getNextPieceToDownload store_two
       = (Some ((pieces store_two ! 0) \<lparr> requested := True \<rparr>),
          store_two \<lparr> pieces := (pieces store_two) [0 := (pieces store_two ! 0) \<lparr> requested := True \<rparr>] \<rparr>)
   \<and> currentPieceIndex store_two = 0 \<and> 0 < length (pieces store_two)
   \<and> \<not> completed (pieces store_two ! 0) \<and> \<not> requested (pieces store_two ! 0)
   \<and> currentPieceIndex (snd (getNextPieceToDownload store_two)) = 0
   \<and> \<not> completed (pieces (snd (getNextPieceToDownload store_two)) ! 0)
   \<and> requested (pieces (snd (getNextPieceToDownload store_two)) ! 0)
   \<and> getNextPieceToDownload (snd (getNextPieceToDownload store_two))
       = (None, snd (getNextPieceToDownload store_two))
   \<and> length (pieces (snd (addBlockToPiece h (store_one_requested h) 0 0 ''abcd''))) = 1
   \<and> currentPieceIndex (snd (addBlockToPiece h (store_one_requested h) 0 0 ''abcd'')) = 1
   \<and> getNextPieceToDownload (snd (addBlockToPiece h (store_one_requested h) 0 0 ''abcd''))
       = (None, snd (addBlockToPiece h (store_one_requested h) 0 0 ''abcd''))"
proof
  fix h
  let ?s1 = "snd (getNextPieceToDownload store_two)"
  let ?s2 = "snd (addBlockToPiece h (store_one_requested h) 0 0 ''abcd'')"
  have a: "currentPieceIndex store_two = 0" "0 < length (pieces store_two)"
    "\<not> completed (pieces store_two ! 0)" "\<not> requested (pieces store_two ! 0)"
    by (simp_all add: store_two_def)
  have b: "currentPieceIndex ?s1 = 0" "0 < length (pieces ?s1)"
    "\<not> completed (pieces ?s1 ! 0)" "requested (pieces ?s1 ! 0)"
    by (simp_all add: store_two_def store_eval)
  have c: "length (pieces ?s2) = 1" "currentPieceIndex ?s2 = 1"
    by (simp_all add: store_one_requested_eq) (simp_all add: store_one_def store_eval)
  from getNextPieceToDownload_current [of store_two] getNextPieceToDownload_current [of ?s1]
    getNextPieceToDownload_current [of ?s2] a b c
  show "getNextPieceToDownload store_two
       = (Some ((pieces store_two ! 0) \<lparr> requested := True \<rparr>),
          store_two \<lparr> pieces := (pieces store_two) [0 := (pieces store_two ! 0) \<lparr> requested := True \<rparr>] \<rparr>)
   \<and> currentPieceIndex store_two = 0 \<and> 0 < length (pieces store_two)
   \<and> \<not> completed (pieces store_two ! 0) \<and> \<not> requested (pieces store_two ! 0)
   \<and> currentPieceIndex ?s1 = 0
   \<and> \<not> completed (pieces ?s1 ! 0)
   \<and> requested (pieces ?s1 ! 0)
   \<and> getNextPieceToDownload ?s1 = (None, ?s1)
   \<and> length (pieces ?s2) = 1
   \<and> currentPieceIndex ?s2 = 1
   \<and> getNextPieceToDownload ?s2 = (None, ?s2)"
    by simp
qed

subsection \<open>Failed assembly\<close>

text \<open>The digest-failure branch of \<open>assemblePiece\<close> does reset the piece.\<close>

lemma assemblePiece_digest_failure_resets:
  assumes "piece_at (pieces pm) i = Some p"
    and "assemble_loop (blocks p) (sort (map fst (blocks p))) [] 0 = Some d"
    and "length d = size_piece p" and "h d \<noteq> hash p"
  shows "assemblePiece h pm i
           = (False, piece_put pm i (p \<lparr> requested := False, blocks := [], receivedBlocks := 0 \<rparr>))"
  using assms by (simp add: assemblePiece_def verifyHash_def Let_def)

text \<open>
  C5 on the code. Piece 0 of the one-piece torrent (four bytes, one block) has been handed
  out. (1) A final block \<open>cd\<close> at offset 2 fails the contiguity check: the call returns
  \<open>false\<close>, but the block stays in the map, the counter stays at 1 and the piece stays
  requested. (2) A final block \<open>ab\<close> at offset 0 gives an assembled length of 2, not 4:
  again \<open>false\<close>, with the block, the counter and the flag left as they were.
\<close>

theorem failed_assembly_not_reset:
  "fst (addBlockToPiece h (store_one_requested h) 0 2 ''cd'') = False
   \<and> blocks (pieces (snd (addBlockToPiece h (store_one_requested h) 0 2 ''cd'')) ! 0) = [(2, ''cd'')]
   \<and> receivedBlocks (pieces (snd (addBlockToPiece h (store_one_requested h) 0 2 ''cd'')) ! 0) = 1
   \<and> requested (pieces (snd (addBlockToPiece h (store_one_requested h) 0 2 ''cd'')) ! 0)
   \<and> fst (addBlockToPiece h (store_one_requested h) 0 0 ''ab'') = False
   \<and> blocks (pieces (snd (addBlockToPiece h (store_one_requested h) 0 0 ''ab'')) ! 0) = [(0, ''ab'')]
   \<and> receivedBlocks (pieces (snd (addBlockToPiece h (store_one_requested h) 0 0 ''ab'')) ! 0) = 1
   \<and> requested (pieces (snd (addBlockToPiece h (store_one_requested h) 0 0 ''ab'')) ! 0)"
  by (simp add: store_one_requested_eq) (simp add: store_one_def store_eval)

subsection \<open>Indices outside the store\<close>

text \<open>
  C10. For a piece index below 0 or at least the number of pieces, \<open>addBlockToPiece\<close>
  returns \<open>false\<close>, \<open>getPieceInfo\<close> and \<open>getPieceData\<close> return \<open>null\<close>,
  \<open>resetPieceRequest\<close> does nothing, and the store is unchanged by each of them. The
  four operations are total functions with no error result.
\<close>

theorem out_of_range_unchanged:
  assumes "pieceIndex < 0 \<or> int (length (pieces pm)) \<le> pieceIndex"
  shows "addBlockToPiece h pm pieceIndex offset blockData = (False, pm)
       \<and> getPieceInfo pm pieceIndex = None
       \<and> getPieceData pm pieceIndex = None
       \<and> resetPieceRequest pm pieceIndex = pm"
proof -
  from assms have "piece_at (pieces pm) pieceIndex = None"
    by (simp add: piece_at_None_iff)
  then show ?thesis
    by (simp add: addBlockToPiece_def getPieceInfo_def getPieceData_def resetPieceRequest_def)
qed

theorem out_of_range_unchanged_witness:
  "length (pieces store_two) = 2
   \<and> addBlockToPiece id store_two (- 1) 0 ''ab'' = (False, store_two)
   \<and> getPieceInfo store_two (- 1) = None
   \<and> getPieceData store_two (- 1) = None
   \<and> resetPieceRequest store_two (- 1) = store_two
   \<and> addBlockToPiece id store_two 2 0 ''ab'' = (False, store_two)
   \<and> getPieceInfo store_two 2 = None
   \<and> getPieceData store_two 2 = None
   \<and> resetPieceRequest store_two 2 = store_two"
proof -
  have len: "length (pieces store_two) = 2" by (simp add: store_two_def)
  have lo: "(- 1 :: int) < 0 \<or> int (length (pieces store_two)) \<le> - 1" by simp
  have hi: "(2 :: int) < 0 \<or> int (length (pieces store_two)) \<le> 2" by (simp add: len)
  from out_of_range_unchanged [OF lo, of id 0 "''ab''"]
    out_of_range_unchanged [OF hi, of id 0 "''ab''"] len
  show ?thesis by simp
qed

lemma length_initializePieces_loop:
  "initializePieces_loop m is = Some ps \<Longrightarrow> length ps = length is"
  by (induction "is" arbitrary: ps) (auto split: option.splits)

lemma newPieceManager_length:
  "newPieceManager m = Some pm \<Longrightarrow> length (pieces pm) = pieceCount m"
  by (auto simp: newPieceManager_def initializePieces_def split: option.splits
           dest: length_initializePieces_loop)

section \<open>Properties of the file writer\<close>

lemma pieceCount_md_short: "pieceCount md_short = 3"
  by (simp add: md_short_def pieceCount_def)

text \<open>
  When the piece length divides the total length, the position is
  \<open>pieceIndex * pieceLength\<close>.
\<close>

lemma writePosition_even:
  assumes "totalLength m = pieceCount m * pieceLength m" and "i < pieceCount m"
  shows "writePosition m i = i * pieceLength m"
proof -
  from assms(2) have pos: "0 < pieceCount m" by simp
  then have std: "totalLength m div pieceCount m = pieceLength m"
    by (simp add: assms(1))
  show ?thesis
  proof (cases "int i = int (pieceCount m) - 1")
    case True
    then have i: "pieceCount m = Suc i" by simp
    have "calculatePieceSize m i = totalLength m - i * pieceLength m"
      using True by (simp add: calculatePieceSize_def std Let_def)
    also have "\<dots> = pieceLength m"
      by (simp add: assms(1) i)
    finally show ?thesis
      by (simp add: writePosition_def)
  next
    case False
    then show ?thesis
      by (simp add: writePosition_def calculatePieceSize_def std Let_def)
  qed
qed

text \<open>
  C2 on the code. For the torrent of ten bytes with piece length four, piece 1 is written
  at position 3, not at \<open>1 * 4\<close>; writing the three pieces \<open>aaaa\<close>, \<open>bbbb\<close>, \<open>cc\<close>
  leaves a file that is not their concatenation.
\<close>

theorem writePiece_position_short_last_piece:
  "pieceLength md_short = 4
   \<and> writePosition md_short 0 = 0
   \<and> writePosition md_short 1 = 3
   \<and> writePosition md_short 2 = 8
   \<and> (case writeAll (initializeFile (newFileManager md_short))
              [(0, ''aaaa''), (1, ''bbbb''), (2, ''cc'')] of
         Inl e \<Rightarrow> False
       | Inr fm \<Rightarrow> fileHandle fm = Some (''aaabbbb'' @ [CHR 0x00] @ ''cc''))"
  by (simp add: writePosition_def calculatePieceSize_def pieceCount_md_short Let_def)
     (simp add: md_short_def writeAll_def writePiece_def initializeFile_def newFileManager_def
        writePosition_def calculatePieceSize_def pieceCount_def file_write_def Let_def)


section \<open>Properties of the bencode codec\<close>

subsection \<open>Decimal text\<close>


lemma digitChar_cases:
  assumes "n < 10"
  shows "digitChar n \<in> set ''0123456789'' \<and> digitValue (digitChar n) = n \<and> isDigit (digitChar n)"
proof -
  from assms have "n \<in> {0, 1, 2, 3, 4, 5, 6, 7, 8, 9}" by auto
  then show ?thesis
    by (auto simp: digitChar_def digitValue_def isDigit_def)
qed

lemma showNat_digits: "showNat n \<noteq> [] \<and> (\<forall>c \<in> set (showNat n). isDigit c)"
proof (induction n rule: showNat.induct)
  case (1 n)
  show ?case
  proof (cases "n < 10")
    case True
    then show ?thesis
      using digitChar_cases [of n] by (simp add: showNat.simps [of n])
  next
    case False
    have "n mod 10 < 10" by simp
    with False 1 digitChar_cases [of "n mod 10"] show ?thesis
      by (simp add: showNat.simps [of n])
  qed
qed

lemma decimalValue_snoc: "decimalValue (ds @ [c]) = 10 * decimalValue ds + digitValue c"
  by (simp add: decimalValue_def)

lemma decimalValue_showNat: "decimalValue (showNat n) = n"
proof (induction n rule: showNat.induct)
  case (1 n)
  show ?case
  proof (cases "n < 10")
    case True
    then show ?thesis
      using digitChar_cases [of n] by (simp add: showNat.simps [of n] decimalValue_def)
  next
    case False
    have "n mod 10 < 10" by simp
    with False 1 digitChar_cases [of "n mod 10"] show ?thesis
      by (simp add: showNat.simps [of n] decimalValue_snoc)
  qed
qed

lemma digit_not_special:
  assumes "isDigit c"
  shows "isAscii c" "c \<noteq> CHR ''-''" "c \<noteq> CHR ''+''" "c \<noteq> CHR '':''" "c \<noteq> CHR ''e''"
    "c \<noteq> CHR ''i''" "c \<noteq> CHR ''l''" "c \<noteq> CHR ''d''"
  using assms by (auto simp: isDigit_def isAscii_def Let_def)

text \<open>A text that begins with a digit or a minus sign begins with no white space.\<close>

lemma whiteSpaceLength_0:
  assumes "\<forall>w \<in> set whiteSpaceChars. w \<noteq> [] \<and> hd w \<noteq> c"
  shows "whiteSpaceLength (c # cs) = 0"
proof -
  have "\<not> (\<exists>w. w \<in> set whiteSpaceChars \<and> take (length w) (c # cs) = w)"
  proof
    assume "\<exists>w. w \<in> set whiteSpaceChars \<and> take (length w) (c # cs) = w"
    then obtain w where w: "w \<in> set whiteSpaceChars" "take (length w) (c # cs) = w" by blast
    with assms have "w \<noteq> []" "hd w \<noteq> c" by auto
    with w(2) show False by (cases w) auto
  qed
  then have "find (\<lambda>w. take (length w) (c # cs) = w) whiteSpaceChars = None"
    by (simp add: find_None_iff)
  then show ?thesis by (simp add: whiteSpaceLength_def)
qed

lemma whiteSpaceLength_digit: "isDigit c \<Longrightarrow> whiteSpaceLength (c # cs) = 0"
  by (rule whiteSpaceLength_0) (auto simp: whiteSpaceChars_def isDigit_def Let_def)

lemma whiteSpaceLength_minus: "whiteSpaceLength (CHR ''-'' # cs) = 0"
  by (rule whiteSpaceLength_0) (simp add: whiteSpaceChars_def)

lemma dropWhiteSpace_id: "whiteSpaceLength s = 0 \<Longrightarrow> dropWhiteSpace s = s"
  by (simp add: dropWhiteSpace.simps)

text \<open>\<open>parseInt\<close> on a run of digits, with or without a minus sign.\<close>

lemma parseInt_digits:
  assumes "ds \<noteq> []" and "\<forall>c \<in> set ds. isDigit c" and "decimalValue ds \<le> MAX_SAFE_INTEGER"
  shows "parseInt ds = Exact (int (decimalValue ds))"
    and "parseInt (CHR ''-'' # ds) = Exact (- int (decimalValue ds))"
proof -
  from assms obtain c cs where ds: "ds = c # cs" by (cases ds) auto
  with assms(2) have c: "isDigit c" by simp
  have tw: "takeWhile isDigit ds = ds" using assms(2) by (simp add: takeWhile_eq_all_conv)
  have dw: "dropWhiteSpace ds = ds"
    unfolding ds by (rule dropWhiteSpace_id [OF whiteSpaceLength_digit [OF c]])
  have hd: "hd ds = c" by (simp add: ds)
  show "parseInt ds = Exact (int (decimalValue ds))"
    using digit_not_special(2,3) [OF c] assms(1,3)
    by (simp add: parseInt_def dw tw hd Let_def)
  have dw': "dropWhiteSpace (CHR ''-'' # ds) = CHR ''-'' # ds"
    by (rule dropWhiteSpace_id [OF whiteSpaceLength_minus])
  show "parseInt (CHR ''-'' # ds) = Exact (- int (decimalValue ds))"
    using assms(1,3) by (simp add: parseInt_def dw' Let_def tw)
qed

lemma parseInt_showNat: "n \<le> MAX_SAFE_INTEGER \<Longrightarrow> parseInt (showNat n) = Exact (int n)"
  using parseInt_digits(1) [of "showNat n"] showNat_digits [of n]
  by (simp add: decimalValue_showNat)

lemma parseInt_showInt: "\<bar>i\<bar> \<le> int MAX_SAFE_INTEGER \<Longrightarrow> parseInt (showInt i) = Exact i"
proof (cases "i < 0")
  case True
  assume "\<bar>i\<bar> \<le> int MAX_SAFE_INTEGER"
  with True have "nat (- i) \<le> MAX_SAFE_INTEGER" by simp
  with True show ?thesis
    using parseInt_digits(2) [of "showNat (nat (- i))"] showNat_digits [of "nat (- i)"]
    by (simp add: showInt_def decimalValue_showNat)
next
  case False
  assume "\<bar>i\<bar> \<le> int MAX_SAFE_INTEGER"
  with False have "nat i \<le> MAX_SAFE_INTEGER" by simp
  with False show ?thesis by (simp add: showInt_def parseInt_showNat)
qed

lemma showInt_no_e: "CHR ''e'' \<notin> set (showInt i)"
  using showNat_digits [of "nat (- i)"] showNat_digits [of "nat i"] digit_not_special(5)
  by (auto simp: showInt_def)

lemma showNat_no_colon: "CHR '':'' \<notin> set (showNat n)"
  using showNat_digits [of n] digit_not_special(4) by auto

text \<open>\<open>indexOf\<close> and \<open>slice\<close> inside a concatenation.\<close>

lemma indexOf_append:
  assumes "c \<notin> set xs"
  shows "indexOf (pre @ xs @ c # rest) c (length pre) = Some (length pre + length xs)"
proof -
  have "takeWhile (\<lambda>x. x \<noteq> c) (xs @ c # rest) = xs"
    using assms by (induction xs) auto
  then show ?thesis by (simp add: indexOf_def)
qed

lemma slice_append:
  "slice (pre @ xs @ rest) (length pre) (length pre + length xs) = xs"
  by (simp add: slice_def)

lemma slice_append_len:
  "a = length pre \<Longrightarrow> b = length pre + length xs \<Longrightarrow> slice (pre @ xs @ rest) a b = xs"
  by (simp add: slice_def)


text \<open>Parsing a length-prefixed string and an integer where they stand in a buffer.\<close>

lemma parseString_encoded:
  assumes "length b \<le> MAX_SAFE_INTEGER"
  shows "parseString (pre @ showNat (length b) @ CHR '':'' # b @ rest) (length pre)
     = Inr (b, length pre + length (showNat (length b)) + 1 + length b)"
proof -
  let ?ds = "showNat (length b)"
  let ?dat = "pre @ ?ds @ CHR '':'' # b @ rest"
  have io: "indexOf ?dat (CHR '':'') (length pre) = Some (length pre + length ?ds)"
    by (rule indexOf_append [OF showNat_no_colon])
  show ?thesis
    by (simp add: parseString_def io slice_def parseInt_showNat [OF assms])
qed

lemma parseInteger_encoded:
  assumes "\<bar>n\<bar> \<le> int MAX_SAFE_INTEGER"
  shows "parseInteger (pre @ CHR ''i'' # showInt n @ CHR ''e'' # rest) (length pre)
     = Inr (n, length pre + length (showInt n) + 2)"
proof -
  let ?dat = "pre @ CHR ''i'' # showInt n @ CHR ''e'' # rest"
  have "indexOf ((pre @ ''i'') @ showInt n @ CHR ''e'' # rest) (CHR ''e'') (length (pre @ ''i''))
          = Some (length (pre @ ''i'') + length (showInt n))"
    by (rule indexOf_append [OF showInt_no_e])
  then have io: "indexOf ?dat (CHR ''e'') (Suc (length pre)) = Some (Suc (length pre + length (showInt n)))"
    by simp
  show ?thesis
    by (simp add: parseInteger_def io slice_def parseInt_showInt [OF assms])
qed


subsection \<open>Decoding an encoded value\<close>

lemma nth_append_length': "(xs @ ys) ! length xs = hd ys" if "ys \<noteq> []"
  using that by (cases ys) (simp_all add: nth_append)

lemma showNat_hd: "isDigit (hd (showNat n))"
  using showNat_digits [of n] by (cases "showNat n") auto

lemma encode_nonempty: "encode v \<noteq> []"
  by (cases v) (simp_all add: encode.simps encodeString_def encodeBuffer_def encodeInteger_def)

lemma encode_hd_not_e: "hd (encode v) \<noteq> CHR ''e''"
proof (cases v)
  case (BString s)
  then show ?thesis
    using showNat_hd [of "length s"] showNat_digits [of "length s"] digit_not_special(5)
    by (auto simp: encodeString_def hd_append)
next
  case (BBuffer b)
  then show ?thesis
    using showNat_hd [of "length b"] showNat_digits [of "length b"] digit_not_special(5)
    by (auto simp: encodeBuffer_def hd_append)
qed (simp_all add: encode.simps encodeInteger_def)

lemma encode_BDict_sorted:
  assumes "sorted (map fst d)" and "distinct (map fst d)"
  shows "encode (BDict d) = ''d'' @ concat (map (\<lambda>(k, v). encodeString k @ encode v) d) @ ''e''"
proof -
  have srt: "sort (map fst d) = map fst d"
    using assms(1) by (simp add: sort_key_id_if_sorted)
  have eq: "map ((\<lambda>key. encodeString key
                        @ (case map_of d key of None \<Rightarrow> [] | Some v \<Rightarrow> encode v)) \<circ> fst) d
          = map (\<lambda>(k, v). encodeString k @ encode v) d"
    using assms(2) by (auto simp: map_of_eq_Some_iff [THEN iffD2])
  show ?thesis
    by (simp only: encode.simps srt map_map eq)
qed

lemma parseList_loop_encoded:
  assumes "\<And>v f pre rest. v \<in> set vs \<Longrightarrow> length (encode v) \<le> f \<Longrightarrow>
             parseValue f (pre @ encode v @ rest) (length pre)
               = Inr (v, length pre + length (encode v))"
    and "length (concat (map encode vs)) + 1 \<le> f"
  shows "parseList_loop f (pre @ concat (map encode vs) @ CHR ''e'' # rest) (length pre) acc
           = Inr (acc @ vs, length pre + length (concat (map encode vs)))"
  using assms
proof (induction vs arbitrary: f pre acc)
  case Nil
  then obtain f' where f: "f = Suc f'" by (cases f) auto
  show ?case by (simp add: f)
next
  case (Cons v vs)
  then obtain f' where f: "f = Suc f'" by (cases f) auto
  let ?tail = "concat (map encode vs) @ CHR ''e'' # rest"
  let ?dat = "pre @ encode v @ ?tail"
  have lenv: "1 \<le> length (encode v)"
    using encode_nonempty [of v] by (cases "encode v") auto
  have at: "?dat ! length pre = hd (encode v)"
    using nth_append_length' [of "encode v @ ?tail" pre] encode_nonempty [of v] by simp
  have lt: "length pre < length ?dat" using lenv by simp
  have fv: "length (encode v) \<le> f'" using Cons.prems(2) f by simp
  have pv: "parseValue f' ?dat (length pre) = Inr (v, length pre + length (encode v))"
    by (rule Cons.prems(1) [OF _ fv]) simp
  have ftl: "length (concat (map encode vs)) + 1 \<le> f'"
    using Cons.prems(2) f lenv by simp
  have "parseList_loop f' ((pre @ encode v) @ ?tail) (length (pre @ encode v)) (acc @ [v])
          = Inr ((acc @ [v]) @ vs, length (pre @ encode v) + length (concat (map encode vs)))"
    by (rule Cons.IH [OF _ ftl]) (rule Cons.prems(1), simp_all)
  then have tl: "parseList_loop f' ?dat (length pre + length (encode v)) (acc @ [v])
          = Inr (acc @ v # vs, length pre + length (encode v) + length (concat (map encode vs)))"
    by simp
  have "parseList_loop (Suc f') ?dat (length pre) acc
          = Inr (acc @ v # vs, length pre + length (encode v) + length (concat (map encode vs)))"
    using lt at encode_hd_not_e [of v] by (simp add: pv tl del: append_assoc)
  then show ?case by (simp add: f)
qed


lemma dict_set_last: "\<forall>k' \<in> fst ` set d. k' < k \<Longrightarrow> dict_set d k v = d @ [(k, v)]"
  by (induction d) auto

lemma parseDictionary_loop_encoded:
  assumes "\<And>k v f pre rest. (k, v) \<in> set d \<Longrightarrow> length (encode v) \<le> f \<Longrightarrow>
             parseValue f (pre @ encode v @ rest) (length pre)
               = Inr (v, length pre + length (encode v))"
    and "length (concat (map (\<lambda>(k, v). encodeString k @ encode v) d)) + 1 \<le> f"
    and "sorted (map fst (acc @ d))" and "distinct (map fst (acc @ d))"
    and "\<forall>k \<in> fst ` set d. key_represented k \<and> length k \<le> MAX_SAFE_INTEGER"
  shows "parseDictionary_loop f
           (pre @ concat (map (\<lambda>(k, v). encodeString k @ encode v) d) @ CHR ''e'' # rest)
           (length pre) acc
         = Inr (acc @ d, length pre + length (concat (map (\<lambda>(k, v). encodeString k @ encode v) d)))"
  using assms
proof (induction d arbitrary: f pre acc)
  case Nil
  then obtain f' where f: "f = Suc f'" by (cases f) auto
  show ?case by (simp add: f)
next
  case (Cons kv d)
  obtain k v where kv: "kv = (k, v)" by (cases kv)
  from Cons.prems(2) obtain f' where f: "f = Suc f'" by (cases f) auto
  let ?body = "concat (map (\<lambda>(k, v). encodeString k @ encode v) d)"
  let ?tail = "?body @ CHR ''e'' # rest"
  let ?ds = "showNat (length k)"
  let ?dat = "pre @ ?ds @ CHR '':'' # k @ encode v @ ?tail"
  have ds: "?ds \<noteq> []" "isDigit (hd ?ds)"
    using showNat_digits [of "length k"] showNat_hd [of "length k"] by auto
  have at: "?dat ! length pre = hd ?ds"
    using nth_append_length' [of "?ds @ CHR '':'' # k @ encode v @ ?tail" pre] ds(1) by simp
  have lt: "length pre < length ?dat" by simp
  define p1 where "p1 = length pre + length ?ds + 1 + length k"
  define p2 where "p2 = p1 + length (encode v)"
  have key: "key_represented k" "length k \<le> MAX_SAFE_INTEGER"
    using Cons.prems(5) by (simp_all add: kv)
  have ps: "parseString ?dat (length pre) = Inr (k, p1)"
    using parseString_encoded [OF key(2), of pre "encode v @ ?tail"] by (simp add: p1_def)
  let ?pre1 = "pre @ ?ds @ CHR '':'' # k"
  have l1: "length ?pre1 = p1" by (simp add: p1_def)
  have fv: "length (encode v) \<le> f'" using Cons.prems(2) f by (simp add: kv)
  have "parseValue f' (?pre1 @ encode v @ ?tail) (length ?pre1)
          = Inr (v, length ?pre1 + length (encode v))"
    by (rule Cons.prems(1) [OF _ fv, of k]) (simp add: kv)
  then have pv: "parseValue f' ?dat p1 = Inr (v, p2)"
    unfolding l1 p2_def by simp
  have fresh: "\<forall>k' \<in> fst ` set acc. k' < k"
    using Cons.prems(3,4) by (force simp: kv sorted_append)
  have ftl: "length ?body + 1 \<le> f'"
    using Cons.prems(2) f by (simp add: kv encodeString_def)
  have srt: "sorted (map fst ((acc @ [(k, v)]) @ d))"
    using Cons.prems(3) by (simp add: kv)
  have dist: "distinct (map fst ((acc @ [(k, v)]) @ d))"
    using Cons.prems(4) by (simp add: kv)
  have keys: "\<forall>k \<in> fst ` set d. key_represented k \<and> length k \<le> MAX_SAFE_INTEGER"
    using Cons.prems(5) by simp
  let ?pre2 = "?pre1 @ encode v"
  have l2: "length ?pre2 = p2" by (simp add: p2_def p1_def)
  have "parseDictionary_loop f' (?pre2 @ ?tail) (length ?pre2) (acc @ [(k, v)])
          = Inr ((acc @ [(k, v)]) @ d, length ?pre2 + length ?body)"
  proof (rule Cons.IH [OF _ ftl srt dist keys])
    fix k' v' f pre rest
    assume "(k', v') \<in> set d" and "length (encode v') \<le> f"
    then show "parseValue f (pre @ encode v' @ rest) (length pre)
                 = Inr (v', length pre + length (encode v'))"
      by (intro Cons.prems(1) [of k' v']) simp_all
  qed
  then have tl: "parseDictionary_loop f' ?dat p2 (acc @ [(k, v)])
          = Inr (acc @ (k, v) # d, p2 + length ?body)"
    unfolding l2 by simp
  have "parseDictionary_loop (Suc f') ?dat (length pre) acc = Inr (acc @ (k, v) # d, p2 + length ?body)"
    using lt at ds(2) digit_not_special(5) [OF ds(2)]
    by (simp add: ps pv tl key(1) dict_set_last [OF fresh] del: append_assoc)
  then show ?case by (simp add: f kv encodeString_def p2_def p1_def)
qed

lemma decode_encode_at:
  assumes "wellformed_value v" and "length (encode v) \<le> f"
  shows "parseValue f (pre @ encode v @ rest) (length pre) = Inr (v, length pre + length (encode v))"
  using assms
proof (induction v arbitrary: f pre rest)
  case (BString s)
  then show ?case by simp
next
  case (BNumber n)
  then obtain f' where f: "f = Suc f'" by (cases f) (auto simp: encodeInteger_def)
  let ?dat = "pre @ CHR ''i'' # showInt n @ CHR ''e'' # rest"
  have "\<not> isDigit (CHR ''i'')" by (simp add: isDigit_def)
  moreover from BNumber.prems(1) have "\<bar>n\<bar> \<le> int MAX_SAFE_INTEGER" by simp
  ultimately show ?case
    using parseInteger_encoded [of n pre rest]
    by (simp add: f encodeInteger_def)
next
  case (BBuffer b)
  then obtain f' where f: "f = Suc f'" by (cases f) (auto simp: encodeBuffer_def)
  let ?ds = "showNat (length b)"
  let ?dat = "pre @ ?ds @ CHR '':'' # b @ rest"
  have ds: "?ds \<noteq> []" "isDigit (hd ?ds)"
    using showNat_digits [of "length b"] showNat_hd [of "length b"] by auto
  have at: "?dat ! length pre = hd ?ds"
    using nth_append_length' [of "?ds @ CHR '':'' # b @ rest" pre] ds(1) by simp
  from BBuffer.prems(1) have "length b \<le> MAX_SAFE_INTEGER" by simp
  then show ?case
    using parseString_encoded [of b pre rest] at ds(2)
    by (simp add: f encodeBuffer_def)
next
  case (BList vs)
  let ?body = "concat (map encode vs)"
  from BList.prems(2) obtain f' where f: "f = Suc f'" by (cases f) auto
  have wf: "\<And>v. v \<in> set vs \<Longrightarrow> wellformed_value v"
    using BList.prems(1) by (simp add: list_all_iff)
  have fb: "length ?body + 1 \<le> f'" using BList.prems(2) f by simp
  have loop: "parseList_loop f' ((pre @ ''l'') @ ?body @ CHR ''e'' # rest) (length (pre @ ''l'')) []
          = Inr ([] @ vs, length (pre @ ''l'') + length ?body)"
    by (rule parseList_loop_encoded [OF _ fb]) (rule BList.IH, simp_all add: wf)
  let ?dat = "pre @ CHR ''l'' # ?body @ CHR ''e'' # rest"
  from loop have loop': "parseList_loop f' ?dat (Suc (length pre)) [] = Inr (vs, Suc (length pre + length ?body))"
    by simp
  have "\<not> isDigit (CHR ''l'')" by (simp add: isDigit_def)
  then show ?case
    by (simp add: f loop')
next
  case (BDict d)
  let ?body = "concat (map (\<lambda>(k, v). encodeString k @ encode v) d)"
  from BDict.prems(1) have srt: "sorted (map fst d)" and dist: "distinct (map fst d)"
    and keys: "\<forall>k \<in> fst ` set d. key_represented k \<and> length k \<le> MAX_SAFE_INTEGER"
    and wf: "\<And>k v. (k, v) \<in> set d \<Longrightarrow> wellformed_value v"
    by (auto simp: list_all_iff)
  have enc: "encode (BDict d) = ''d'' @ ?body @ ''e''"
    by (rule encode_BDict_sorted [OF srt dist])
  from BDict.prems(2) obtain f' where f: "f = Suc f'" by (cases f) (auto simp: enc)
  have fb: "length ?body + 1 \<le> f'" using BDict.prems(2) f by (simp add: enc)
  have srt': "sorted (map fst ([] @ d))" using srt by simp
  have dist': "distinct (map fst ([] @ d))" using dist by simp
  have loop: "parseDictionary_loop f' ((pre @ ''d'') @ ?body @ CHR ''e'' # rest)
                (length (pre @ ''d'')) []
          = Inr ([] @ d, length (pre @ ''d'') + length ?body)"
  proof (rule parseDictionary_loop_encoded [OF _ fb srt' dist' keys])
    fix k v f pre rest
    assume kv: "(k, v) \<in> set d" and fv: "length (encode v) \<le> f"
    show "parseValue f (pre @ encode v @ rest) (length pre) = Inr (v, length pre + length (encode v))"
      by (rule BDict.IH [OF kv _ wf [OF kv] fv]) simp
  qed
  let ?dat = "pre @ CHR ''d'' # ?body @ CHR ''e'' # rest"
  from loop have loop': "parseDictionary_loop f' ?dat (Suc (length pre)) []
                           = Inr (d, Suc (length pre + length ?body))"
    by simp
  have "\<not> isDigit (CHR ''d'')" by (simp add: isDigit_def)
  then show ?case
    by (simp add: f enc loop')
qed

subsection \<open>The parser advances, and its fuel suffices\<close>


lemma indexOf_ge: "indexOf d c p = Some k \<Longrightarrow> p \<le> k"
  by (auto simp: indexOf_def split: if_splits)

lemma parseString_advances: "parseString d p = Inr (b, p') \<Longrightarrow> p < p'"
  by (auto simp: parseString_def split: option.splits parsed_number.splits if_splits
           dest: indexOf_ge)

lemma parseInteger_advances: "parseInteger d p = Inr (n, p') \<Longrightarrow> p < p'"
  by (auto simp: parseInteger_def split: option.splits parsed_number.splits dest: indexOf_ge)

lemma parse_advances:
  "(\<forall>v p'. parseValue f d p = Inr (v, p') \<longrightarrow> p < p')"
  "(\<forall>l p'. parseList_loop f d p acc = Inr (l, p') \<longrightarrow> p \<le> p')"
  "(\<forall>l p'. parseDictionary_loop f d p dacc = Inr (l, p') \<longrightarrow> p \<le> p')"
proof (induction f d p and f d p acc and f d p dacc
       rule: parseValue_parseList_loop_parseDictionary_loop.induct)
  case (1 dat position)
  show ?case by simp
next
  case (2 fuel dat position)
  show ?case
    using 2 by (auto split: if_splits sum.splits prod.splits
                     dest!: parseString_advances parseInteger_advances)
next
  case (3 dat position list)
  show ?case by simp
next
  case (4 fuel dat position list)
  show ?case
    using 4 by (fastforce split: if_splits sum.splits prod.splits)
next
  case (5 dat position dict)
  show ?case by simp
next
  case (6 fuel dat position dict)
  show ?case
    using 6 by (fastforce split: if_splits sum.splits prod.splits dest!: parseString_advances)
qed


lemma parseString_fuel: "parseString d p \<noteq> Inl OutOfFuel"
  by (simp add: parseString_def split: option.splits parsed_number.splits)

lemma parseInteger_fuel: "parseInteger d p \<noteq> Inl OutOfFuel"
  by (simp add: parseInteger_def split: option.splits parsed_number.splits)

lemma parse_fuel:
  "2 * (length d - p) + 1 \<le> f \<longrightarrow> parseValue f d p \<noteq> Inl OutOfFuel"
  "2 * (length d - p) + 2 \<le> f \<longrightarrow> parseList_loop f d p acc \<noteq> Inl OutOfFuel"
  "2 * (length d - p) + 2 \<le> f \<longrightarrow> parseDictionary_loop f d p dacc \<noteq> Inl OutOfFuel"
proof (induction f d p and f d p acc and f d p dacc
       rule: parseValue_parseList_loop_parseDictionary_loop.induct)
  case (1 dat position)
  show ?case by simp
next
  case (2 fuel dat position)
  show ?case
  proof
    assume f: "2 * (length dat - position) + 1 \<le> Suc fuel"
    show "parseValue (Suc fuel) dat position \<noteq> Inl OutOfFuel"
    proof (cases "position < length dat")
      case False
      then show ?thesis by simp
    next
      case True
      with f have f': "2 * (length dat - (position + 1)) + 2 \<le> fuel" by simp
      from True have nge: "\<not> length dat \<le> position" by simp
      consider (s) "isDigit (dat ! position)"
        | (i) "\<not> isDigit (dat ! position)" "dat ! position = CHR ''i''"
        | (l) "\<not> isDigit (dat ! position)" "dat ! position = CHR ''l''"
        | (d) "\<not> isDigit (dat ! position)" "dat ! position = CHR ''d''"
        | (o) "\<not> isDigit (dat ! position)" "dat ! position \<noteq> CHR ''i''"
              "dat ! position \<noteq> CHR ''l''" "dat ! position \<noteq> CHR ''d''"
        by blast
      then show ?thesis
      proof cases
        case s
        then show ?thesis
          using nge parseString_fuel [of dat position]
          by (auto split: sum.splits prod.splits)
      next
        case i
        then show ?thesis
          using nge parseInteger_fuel [of dat position]
          by (auto split: sum.splits prod.splits)
      next
        case l
        have "parseList_loop fuel dat (position + 1) [] \<noteq> Inl OutOfFuel"
          using 2(1) nge l f' by simp
        then show ?thesis
          using nge l by (auto split: sum.splits prod.splits)
      next
        case d
        have "parseDictionary_loop fuel dat (position + 1) [] \<noteq> Inl OutOfFuel"
          using 2(2) nge d f' by simp
        then show ?thesis
          using nge d by (auto split: sum.splits prod.splits)
      next
        case o
        then show ?thesis using nge by simp
      qed
    qed
  qed
next
  case (3 dat position list)
  show ?case by simp
next
  case (4 fuel dat position list)
  show ?case
  proof
    assume f: "2 * (length dat - position) + 2 \<le> Suc fuel"
    show "parseList_loop (Suc fuel) dat position list \<noteq> Inl OutOfFuel"
    proof (cases "position < length dat \<and> dat ! position \<noteq> CHR ''e''")
      case False
      then show ?thesis by auto
    next
      case True
      with f have fv: "2 * (length dat - position) + 1 \<le> fuel" by simp
      have pv: "parseValue fuel dat position \<noteq> Inl OutOfFuel"
        using 4(1) True fv by simp
      show ?thesis
      proof (cases "parseValue fuel dat position")
        case (Inl e)
        with pv True show ?thesis by simp
      next
        case (Inr r)
        obtain v p' where r: "r = (v, p')" by (cases r)
        from Inr r parse_advances(1) [of fuel dat position] have "position < p'" by simp
        with True fv have "2 * (length dat - p') + 2 \<le> fuel" by arith
        with 4(2) [OF True Inr r [symmetric]] True Inr r show ?thesis by simp
      qed
    qed
  qed
next
  case (5 dat position dict)
  show ?case by simp
next
  case (6 fuel dat position dict)
  show ?case
  proof
    assume f: "2 * (length dat - position) + 2 \<le> Suc fuel"
    show "parseDictionary_loop (Suc fuel) dat position dict \<noteq> Inl OutOfFuel"
    proof (cases "position < length dat \<and> dat ! position \<noteq> CHR ''e''")
      case False
      then show ?thesis by auto
    next
      case True
      show ?thesis
      proof (cases "parseString dat position")
        case (Inl e)
        with True parseString_fuel [of dat position] show ?thesis by simp
      next
        case (Inr r1)
        obtain k p1 where r1: "r1 = (k, p1)" by (cases r1)
        from Inr r1 have p1: "position < p1" by (auto dest: parseString_advances)
        with True f have fv: "2 * (length dat - p1) + 1 \<le> fuel" by arith
        have pv: "parseValue fuel dat p1 \<noteq> Inl OutOfFuel"
          using 6(1) [OF True Inr r1 [symmetric]] fv by simp
        show ?thesis
        proof (cases "parseValue fuel dat p1")
          case (Inl e)
          with pv True \<open>parseString dat position = Inr r1\<close> r1 show ?thesis by simp
        next
          case (Inr r)
          obtain v p' where r: "r = (v, p')" by (cases r)
          from Inr r parse_advances(1) [of fuel dat p1] have "p1 < p'" by simp
          with p1 True f have le: "2 * (length dat - p') + 2 \<le> fuel" by arith
          show ?thesis
          proof (cases "key_represented k")
            case False
            with True \<open>parseString dat position = Inr r1\<close> r1 Inr r show ?thesis by simp
          next
            case kr: True
            with 6(2) [OF True \<open>parseString dat position = Inr r1\<close> r1 [symmetric]
                Inr r [symmetric] kr] le
              True \<open>parseString dat position = Inr r1\<close> r1 Inr r
            show ?thesis by simp
          qed
        qed
      qed
    qed
  qed
qed

text \<open>The fuel \<open>decode\<close> supplies is never used up.\<close>

lemma decode_not_OutOfFuel: "decode dat \<noteq> Inl OutOfFuel"
proof -
  have le: "2 * (length dat - 0) + 1 \<le> decode_fuel dat"
    by (simp add: decode_fuel_def)
  have "parseValue (decode_fuel dat) dat 0 \<noteq> Inl OutOfFuel"
    by (rule parse_fuel(1) [rule_format, OF le])
  then show ?thesis
    by (auto simp: decode_def split: sum.splits)
qed

subsection \<open>What the decoder produces\<close>










subsection \<open>Evaluating the parser on a given buffer\<close>

lemmas parse_numeral =
  parseValue.simps(2) [of "pred_numeral k" for k, folded numeral_eq_Suc]
  parseList_loop.simps(2) [of "pred_numeral k" for k, folded numeral_eq_Suc]
  parseDictionary_loop.simps(2) [of "pred_numeral k" for k, folded numeral_eq_Suc]
  find_info_loop.simps(2) [of _ _ "pred_numeral k" for k, folded numeral_eq_Suc]

lemmas bencode_eval =
  decode_def decode_fuel_def parse_numeral parseInteger_def parseString_def indexOf_def slice_def
  parseInt_def dropWhiteSpace.simps whiteSpaceLength_def whiteSpaceChars_def
  MAX_SAFE_INTEGER_def key_represented_def isAscii_def
  isDigit_def decimalValue_def digitValue_def Let_def

lemmas encode_eval =
  encode.simps encodeString_def encodeBuffer_def encodeInteger_def showInt_def showNat.simps
  digitChar_def

subsection \<open>Integers\<close>





subsection \<open>Round trip\<close>







section \<open>Properties of the metainfo loader\<close>

lemma find_info_loop_first:
  assumes "slice buf k (k + 6) = ''4:info''"
    and "\<And>j. i \<le> j \<Longrightarrow> j < k \<Longrightarrow> slice buf j (j + 6) \<noteq> ''4:info''"
    and "i \<le> k" and "k < i + n"
  shows "find_info_loop buf i n = Some (k + 6)"
  using assms
proof (induction n arbitrary: i)
  case 0
  then show ?case by simp
next
  case (Suc n)
  show ?case
  proof (cases "i = k")
    case True
    with Suc.prems(1) show ?thesis by simp
  next
    case False
    with Suc.prems(3) have lt: "i < k" by simp
    then have ne: "slice buf i (i + 6) \<noteq> ''4:info''" using Suc.prems(2) [of i] by simp
    have "find_info_loop buf (i + 1) n = Some (k + 6)"
      using Suc.prems lt by (intro Suc.IH) auto
    with ne show ?thesis by simp
  qed
qed

text \<open>
  Where the first \<open>4:info\<close> of the file is the key of the \<open>info\<close> value and that value
  is canonical, \<open>extractRawInfoDict\<close> returns the value's bytes.
\<close>

lemma extractRawInfoDict_first_match:
  assumes "wellformed_value v"
    and "\<And>j. j < length pre \<Longrightarrow> slice (pre @ ''4:info'' @ encode v @ rest) j (j + 6) \<noteq> ''4:info''"
  shows "extractRawInfoDict (pre @ ''4:info'' @ encode v @ rest) = Inr (encode v)"
proof -
  define buf where "buf = pre @ ''4:info'' @ encode v @ rest"
  have len: "1 \<le> length (encode v)"
    using encode_nonempty [of v] by (cases "encode v") auto
  have m: "slice buf (length pre) (length pre + 6) = ''4:info''"
    by (simp add: buf_def slice_def)
  have nm: "\<And>j. j < length pre \<Longrightarrow> slice buf j (j + 6) \<noteq> ''4:info''"
    unfolding buf_def by (rule assms(2))
  have lb: "length pre < 0 + (length buf - 6)"
    using len by (cases "encode v") (simp_all add: buf_def)
  have fi: "find_info_loop buf 0 (length buf - 6) = Some (length pre + 6)"
    by (rule find_info_loop_first [OF m _ _ lb]) (simp_all add: nm)
  have dr: "drop (length pre + 6) buf = encode v @ rest"
    by (simp add: buf_def)
  have "parseValue (decode_fuel (encode v @ rest)) ([] @ encode v @ rest) (length ([] :: Buffer))
          = Inr (v, length ([] :: Buffer) + length (encode v))"
    by (rule decode_encode_at [OF assms(1)]) (simp add: decode_fuel_def)
  then have de: "decode (encode v @ rest) = Inr v"
    by (simp add: decode_def)
  have "extractRawInfoDict buf = Inr (encode v)"
    by (simp add: extractRawInfoDict_def fi dr de)
  then show ?thesis by (simp only: buf_def)
qed

lemma decode_torrent_ex: "decode torrent_ex = Inr torrent_value_ex"
proof -
  have wf: "wellformed_value torrent_value_ex"
    by (simp add: torrent_value_ex_def info_value_ex_def key_represented_def isAscii_def
          MAX_SAFE_INTEGER_def)
  have enc: "encode torrent_value_ex = torrent_ex"
    by (simp add: torrent_value_ex_def info_value_ex_def torrent_ex_def info_raw_ex_def encode_eval)
  have "parseValue (decode_fuel (encode torrent_value_ex)) ([] @ encode torrent_value_ex @ [])
          (length ([] :: Buffer)) = Inr (torrent_value_ex, length ([] :: Buffer) + length (encode torrent_value_ex))"
    by (rule decode_encode_at [OF wf]) (simp add: decode_fuel_def)
  then show ?thesis by (simp add: decode_def enc)
qed

lemma encode_info_value_ex: "encode info_value_ex = info_raw_ex"
  by (simp add: info_value_ex_def info_raw_ex_def encode_eval)

lemma decode_info_raw_ex: "decode info_raw_ex = Inr info_value_ex"
proof -
  have wf: "wellformed_value info_value_ex"
    by (simp add: info_value_ex_def key_represented_def isAscii_def MAX_SAFE_INTEGER_def)
  have "parseValue (decode_fuel (encode info_value_ex)) ([] @ encode info_value_ex @ [])
          (length ([] :: Buffer)) = Inr (info_value_ex, length ([] :: Buffer) + length (encode info_value_ex))"
    by (rule decode_encode_at [OF wf]) (simp add: decode_fuel_def)
  then show ?thesis by (simp add: decode_def encode_info_value_ex)
qed

lemma extract_torrent_ex: "extractRawInfoDict torrent_ex = Inr ''i1e''"
  by (simp add: extractRawInfoDict_def torrent_ex_def info_raw_ex_def bencode_eval encode_eval
           cong: sum.case_cong_weak option.case_cong_weak prod.case_cong_weak)

text \<open>
  C3 on the code. The metainfo \<open>torrent_ex\<close> is canonical bencode; its \<open>info\<close> value
  has the bytes \<open>info_raw_ex\<close>. The byte search of \<open>extractRawInfoDict\<close> stops at the
  \<open>4:info\<close> inside the \<open>comment\<close> text, so the loader hashes the three bytes \<open>i1e\<close>
  and not the bytes of the \<open>info\<close> value.
\<close>

theorem extractRawInfoDict_earlier_match:
  "decode torrent_ex = Inr torrent_value_ex
   \<and> torrent_ex = ''d8:announce9:http://t/7:comment9:4:infoi1e4:info'' @ info_raw_ex @ ''e''
   \<and> decode info_raw_ex = Inr info_value_ex
   \<and> encode info_value_ex = info_raw_ex
   \<and> extractRawInfoDict torrent_ex = Inr ''i1e''
   \<and> loadInfoHash h torrent_ex = Inr (h ''i1e'')
   \<and> info_raw_ex \<noteq> ''i1e''"
  by (simp add: decode_torrent_ex decode_info_raw_ex encode_info_value_ex extract_torrent_ex
        loadInfoHash_def calculateInfoHash_def)
     (simp add: torrent_ex_def info_raw_ex_def)
section \<open>Properties of the tracker client\<close>

subsection \<open>The key of a peer\<close>

text \<open>
  The key \<open>ip:port\<close> determines the endpoint: the text of the port holds no colon, so
  the key splits at its last colon.
\<close>

lemma split_at_first:
  assumes "xs @ c # ys = xs' @ c # ys'" and "c \<notin> set xs" and "c \<notin> set xs'"
  shows "xs = xs' \<and> ys = ys'"
  using assms
proof (induction xs arbitrary: xs')
  case Nil
  then show ?case by (cases xs') auto
next
  case (Cons x xs)
  then show ?case by (cases xs') auto
qed

lemma split_at_last:
  assumes "xs @ c # ys = xs' @ c # ys'" and "c \<notin> set ys" and "c \<notin> set ys'"
  shows "xs = xs' \<and> ys = ys'"
proof -
  have "rev ys @ c # rev xs = rev ys' @ c # rev xs'"
    using arg_cong [OF assms(1), of rev] by simp
  moreover have "c \<notin> set (rev ys)" "c \<notin> set (rev ys')" using assms(2,3) by simp_all
  ultimately have "rev ys = rev ys' \<and> rev xs = rev xs'"
    by (rule split_at_first)
  then show ?thesis by simp
qed

lemma showNat_inj: "showNat m = showNat n \<Longrightarrow> m = n"
  by (metis decimalValue_showNat)

lemma peerKey_inj: "peerKey p = peerKey q \<Longrightarrow> p = q"
proof -
  assume "peerKey p = peerKey q"
  then have "ip p @ CHR '':'' # showNat (port p) = ip q @ CHR '':'' # showNat (port q)"
    by (simp add: peerKey_def)
  from split_at_last [OF this showNat_no_colon showNat_no_colon]
  have "ip p = ip q" "port p = port q" by (auto dest: showNat_inj)
  then show ?thesis by simp
qed



subsection \<open>The map of unique peers\<close>

lemma keyed_lookup:
  assumes "keyed m"
  shows "map_of m (peerKey p) = None \<longleftrightarrow> p \<notin> snd ` set m"
proof
  assume "map_of m (peerKey p) = None"
  then have "peerKey p \<notin> fst ` set m" by (simp add: map_of_eq_None_iff)
  with assms show "p \<notin> snd ` set m" by (force simp: keyed_def)
next
  assume "p \<notin> snd ` set m"
  with assms have "peerKey p \<notin> fst ` set m"
    by (force simp: keyed_def dest: peerKey_inj)
  then show "map_of m (peerKey p) = None" by (simp add: map_of_eq_None_iff)
qed

lemma addPeers_keyed:
  "keyed m \<Longrightarrow> keyed (addPeers m ps) \<and> snd ` set (addPeers m ps) = snd ` set m \<union> set ps"
proof (induction ps arbitrary: m)
  case Nil
  then show ?case by simp
next
  case (Cons p ps)
  show ?case
  proof (cases "map_of m (peerKey p) = None")
    case True
    with Cons.prems have new: "p \<notin> snd ` set m" by (simp add: keyed_lookup)
    with Cons.prems have "keyed (m @ [(peerKey p, p)])"
      by (auto simp: keyed_def)
    from Cons.IH [OF this] True show ?thesis by auto
  next
    case False
    with Cons.prems have "p \<in> snd ` set m" by (simp add: keyed_lookup)
    with Cons.IH [OF Cons.prems] False show ?thesis by auto
  qed
qed

lemma collectPeers_keyed:
  "keyed m \<Longrightarrow> keyed (collectPeers m rs)
     \<and> snd ` set (collectPeers m rs) = snd ` set m \<union> (\<Union>r \<in> set rs. set r)"
proof (induction rs arbitrary: m)
  case Nil
  then show ?case by simp
next
  case (Cons r rs)
  show ?case
  proof (cases "length r > 0")
    case True
    from addPeers_keyed [OF Cons.prems, of r] Cons.IH [of "addPeers m r"] True
    show ?thesis by auto
  next
    case False
    with Cons.IH [OF Cons.prems] show ?thesis by auto
  qed
qed

subsection \<open>The announce\<close>

text \<open>
  C8 as stated fails in its last part: a tracker that answers, with an empty list of
  peers, has not failed, and \<open>getPeers\<close> throws all the same.
\<close>

theorem getPeers_empty_answer_counterexample:
  "getPeers udp_ex http_ex (md_trackers [''http://c/'']) = Inl NoPeersFromAnyTracker
   \<and> http_ex ''http://c/'' = Inr []
   \<and> \<not> attemptFailed udp_ex http_ex ''http://c/''"
  by (simp add: getPeers_def md_trackers_def trackerPromise_def attemptFailed_def startsWith_def
        http_ex_def Let_def)

lemma getPeers_ex:
  "getPeers udp_ex http_ex (md_trackers [''udp://u/'', ''http://a/'', ''http://b/''])
     = Inr [\<lparr>ip = ''10.0.0.1'', port = 6881\<rparr>, \<lparr>ip = ''10.0.0.2'', port = 6881\<rparr>,
            \<lparr>ip = ''10.0.0.2'', port = 51413\<rparr>]"
  by (simp add: getPeers_def md_trackers_def trackerPromise_def startsWith_def
        http_ex_def udp_ex_def peerKey_def showNat.simps digitChar_def Let_def)

text \<open>The peers of a promise are the peers of the successful response of its attempt.\<close>

lemma trackerPromise_cases:
  "startsWith url ''udp://'' \<Longrightarrow> cu url = Inl e \<Longrightarrow> trackerPromise cu ch url = []"
  "startsWith url ''udp://'' \<Longrightarrow> cu url = Inr peers \<Longrightarrow> trackerPromise cu ch url = peers"
  "\<not> startsWith url ''udp://'' \<Longrightarrow> startsWith url ''http://'' \<or> startsWith url ''https://''
     \<Longrightarrow> ch url = Inl e \<Longrightarrow> trackerPromise cu ch url = []"
  "\<not> startsWith url ''udp://'' \<Longrightarrow> startsWith url ''http://'' \<or> startsWith url ''https://''
     \<Longrightarrow> ch url = Inr peers \<Longrightarrow> trackerPromise cu ch url = peers"
  "\<not> startsWith url ''udp://'' \<Longrightarrow> \<not> (startsWith url ''http://'' \<or> startsWith url ''https://'')
     \<Longrightarrow> trackerPromise cu ch url = []"
  by (simp_all add: trackerPromise_def)

lemma trackerPromise_peers:
  "p \<in> set (trackerPromise cu ch url) \<longleftrightarrow>
     (\<exists>peers. p \<in> set peers
        \<and> (if startsWith url ''udp://'' then cu url = Inr peers
            else (startsWith url ''http://'' \<or> startsWith url ''https://'')
                 \<and> ch url = Inr peers))"
proof (cases "startsWith url ''udp://''")
  case udp: True
  show ?thesis
  proof (cases "cu url")
    case (Inl e)
    from trackerPromise_cases(1) [where cu = cu and ch = ch and url = url, OF udp Inl] udp Inl show ?thesis by simp
  next
    case (Inr peers)
    from trackerPromise_cases(2) [where cu = cu and ch = ch and url = url, OF udp Inr] udp Inr show ?thesis by simp
  qed
next
  case noudp: False
  show ?thesis
  proof (cases "startsWith url ''http://'' \<or> startsWith url ''https://''")
    case http: True
    show ?thesis
    proof (cases "ch url")
      case (Inl e)
      from trackerPromise_cases(3) [where cu = cu and ch = ch and url = url, OF noudp http Inl] noudp Inl show ?thesis by simp
    next
      case (Inr peers)
      from trackerPromise_cases(4) [where cu = cu and ch = ch and url = url, OF noudp http Inr] noudp http Inr show ?thesis by simp
    qed
  next
    case other: False
    from trackerPromise_cases(5) [where cu = cu and ch = ch and url = url, OF noudp other] noudp other show ?thesis by simp
  qed
qed

lemma getPeers_promises:
  "(getPeers cu ch md = Inl NoPeersFromAnyTracker \<longleftrightarrow>
      (\<forall>url \<in> set (announceList md). trackerPromise cu ch url = []))
   \<and> (\<forall>ps. getPeers cu ch md = Inr ps \<longrightarrow>
         distinct ps \<and> set ps = (\<Union>url \<in> set (announceList md). set (trackerPromise cu ch url)))"
proof -
  let ?rs = "map (trackerPromise cu ch) (announceList md)"
  have k0: "keyed []" by (simp add: keyed_def)
  from collectPeers_keyed [OF k0, of ?rs]
  have k: "keyed (collectPeers [] ?rs)"
    and s: "snd ` set (collectPeers [] ?rs) = (\<Union>url \<in> set (announceList md). set (trackerPromise cu ch url))"
    by auto
  from k have d: "distinct (map snd (collectPeers [] ?rs))" by (simp add: keyed_def)
  have e: "map snd (collectPeers [] ?rs) = [] \<longleftrightarrow>
             (\<forall>url \<in> set (announceList md). trackerPromise cu ch url = [])"
    using s by (metis (no_types, lifting) UN_iff empty_iff image_is_empty list.map_disc_iff
                  set_empty ex_in_conv)
  show ?thesis
    using d s e by (auto simp: getPeers_def Let_def)
qed

text \<open>
  C8, as the code has it. \<open>getPeers\<close> makes one attempt for every URL of the announce
  list with the scheme \<open>udp\<close>, \<open>http\<close> or \<open>https\<close>. When it returns, the list holds
  no endpoint twice, and an endpoint is in it exactly when a successful response names
  it. It throws exactly when no successful response names a peer: every attempt threw,
  was not made, or was answered with no peers.
\<close>

theorem getPeers_union:
  "(\<forall>ps. getPeers cu ch md = Inr ps \<longrightarrow>
      distinct ps
      \<and> (\<forall>p. p \<in> set ps \<longleftrightarrow>
             (\<exists>url \<in> set (announceList md). \<exists>peers. p \<in> set peers
                \<and> (if startsWith url ''udp://'' then cu url = Inr peers
                    else (startsWith url ''http://'' \<or> startsWith url ''https://'')
                         \<and> ch url = Inr peers))))
   \<and> (getPeers cu ch md = Inl NoPeersFromAnyTracker \<longleftrightarrow>
        \<not> (\<exists>url \<in> set (announceList md). \<exists>peers p. p \<in> set peers
             \<and> (if startsWith url ''udp://'' then cu url = Inr peers
                 else (startsWith url ''http://'' \<or> startsWith url ''https://'')
                      \<and> ch url = Inr peers)))"
proof -
  have none: "(\<forall>url \<in> set (announceList md). trackerPromise cu ch url = []) \<longleftrightarrow>
      \<not> (\<exists>url \<in> set (announceList md). \<exists>peers p. p \<in> set peers
             \<and> (if startsWith url ''udp://'' then cu url = Inr peers
                 else (startsWith url ''http://'' \<or> startsWith url ''https://'')
                      \<and> ch url = Inr peers))"
  proof -
    have "trackerPromise cu ch url = [] \<longleftrightarrow>
            \<not> (\<exists>peers p. p \<in> set peers
                  \<and> (if startsWith url ''udp://'' then cu url = Inr peers
                      else (startsWith url ''http://'' \<or> startsWith url ''https://'')
                           \<and> ch url = Inr peers))" for url
      using trackerPromise_peers [of _ cu ch url]
      by (metis ex_in_conv set_empty)
    then show ?thesis by blast
  qed
  show ?thesis
  proof (intro conjI allI impI)
    fix ps
    assume r: "getPeers cu ch md = Inr ps"
    with getPeers_promises [of cu ch md] show "distinct ps" by blast
    from r getPeers_promises [of cu ch md]
    have "set ps = (\<Union>url \<in> set (announceList md). set (trackerPromise cu ch url))" by blast
    then show "p \<in> set ps \<longleftrightarrow>
             (\<exists>url \<in> set (announceList md). \<exists>peers. p \<in> set peers
                \<and> (if startsWith url ''udp://'' then cu url = Inr peers
                    else (startsWith url ''http://'' \<or> startsWith url ''https://'')
                         \<and> ch url = Inr peers))" for p
      using trackerPromise_peers [of p cu ch] by auto
  next
    from getPeers_promises [of cu ch md] none
    show "getPeers cu ch md = Inl NoPeersFromAnyTracker \<longleftrightarrow>
        \<not> (\<exists>url \<in> set (announceList md). \<exists>peers p. p \<in> set peers
             \<and> (if startsWith url ''udp://'' then cu url = Inr peers
                 else (startsWith url ''http://'' \<or> startsWith url ''https://'')
                      \<and> ch url = Inr peers))"
      by simp
  qed
qed

theorem getPeers_union_witness:
  "getPeers udp_ex http_ex (md_trackers [''udp://u/'', ''http://a/'', ''http://b/''])
     = Inr [\<lparr>ip = ''10.0.0.1'', port = 6881\<rparr>, \<lparr>ip = ''10.0.0.2'', port = 6881\<rparr>,
            \<lparr>ip = ''10.0.0.2'', port = 51413\<rparr>]
   \<and> distinct [\<lparr>ip = ''10.0.0.1'', port = 6881\<rparr>, \<lparr>ip = ''10.0.0.2'', port = 6881\<rparr>,
                 \<lparr>ip = ''10.0.0.2'', port = 51413\<rparr>]
   \<and> isl (udp_ex ''udp://u/'')
   \<and> http_ex ''http://a/'' = Inr [\<lparr>ip = ''10.0.0.1'', port = 6881\<rparr>, \<lparr>ip = ''10.0.0.2'', port = 6881\<rparr>]
   \<and> http_ex ''http://b/'' = Inr [\<lparr>ip = ''10.0.0.2'', port = 6881\<rparr>, \<lparr>ip = ''10.0.0.2'', port = 51413\<rparr>]
   \<and> getPeers udp_ex http_ex (md_trackers [''udp://u/'']) = Inl NoPeersFromAnyTracker"
proof -
  let ?md = "md_trackers [''udp://u/'', ''http://a/'', ''http://b/'']"
  have u: "isl (udp_ex ''udp://u/'')" "udp_ex ''udp://u/'' \<noteq> Inr peers" for peers
    by (simp_all add: udp_ex_def)
  have a: "http_ex ''http://a/'' = Inr [\<lparr>ip = ''10.0.0.1'', port = 6881\<rparr>, \<lparr>ip = ''10.0.0.2'', port = 6881\<rparr>]"
    and b: "http_ex ''http://b/'' = Inr [\<lparr>ip = ''10.0.0.2'', port = 6881\<rparr>, \<lparr>ip = ''10.0.0.2'', port = 51413\<rparr>]"
    by (simp_all add: http_ex_def)
  from getPeers_union [of udp_ex http_ex ?md] getPeers_ex
  have "distinct [\<lparr>ip = ''10.0.0.1'', port = 6881\<rparr>, \<lparr>ip = ''10.0.0.2'', port = 6881\<rparr>,
                 \<lparr>ip = ''10.0.0.2'', port = 51413\<rparr>]"
    by blast
  moreover from getPeers_union [of udp_ex http_ex "md_trackers [''udp://u/'']"] u(2)
  have "getPeers udp_ex http_ex (md_trackers [''udp://u/'']) = Inl NoPeersFromAnyTracker"
    by (simp add: md_trackers_def startsWith_def)
  ultimately show ?thesis
    using getPeers_ex u(1) a b by simp
qed
section \<open>Properties of the peer session\<close>


text \<open>What each operation writes.\<close>

lemma written_sendData:
  "written (sendData pc d)
     = written pc @ (if socket pc \<noteq> None \<and> connected pc
                     then [\<lparr> wire = d, choked_at_write = choked (peer pc) \<rparr>] else [])"
  by (auto simp: written_def sendData_def split: option.splits)

lemma sendData_fields [simp]:
  "peer (sendData pc d) = peer pc"
  "connected (sendData pc d) = connected pc"
  "handshakeCompleted (sendData pc d) = handshakeCompleted pc"
  "messageBuffer (sendData pc d) = messageBuffer pc"
  by (auto simp: sendData_def split: option.splits)

lemma requests_unchoked_sendData:
  assumes "requests_unchoked pc" and "isRequest d \<Longrightarrow> \<not> choked (peer pc)"
  shows "requests_unchoked (sendData pc d)"
  using assms by (auto simp: requests_unchoked_def written_sendData)

lemma handshake_not_request:
  "\<not> isRequest (char_of (length PROTOCOL_STRING) # PROTOCOL_STRING @ rest)"
  by (simp add: isRequest_def PROTOCOL_STRING_def REQUEST_def)

lemma interested_not_request: "\<not> isRequest (createMessage INTERESTED [])"
  by (simp add: isRequest_def createMessage_def be32_def INTERESTED_def REQUEST_def)

lemma requests_unchoked_sendHandshake:
  "requests_unchoked pc \<Longrightarrow> requests_unchoked (sendHandshake pc)"
  using handshake_not_request
  by (auto simp: sendHandshake_def intro!: requests_unchoked_sendData)

lemma requests_unchoked_peer_update:
  "written (pc \<lparr> peer := p \<rparr>) = written pc"
  "written (pc \<lparr> messageBuffer := b \<rparr>) = written pc"
  "written (pc \<lparr> handshakeCompleted := c \<rparr>) = written pc"
  "written (pc \<lparr> connected := c' \<rparr>) = written pc"
  "written (emit pc ev) = written pc"
  by (simp_all add: written_def emit_def)

lemma requests_unchoked_sendInterested:
  "requests_unchoked pc \<Longrightarrow> requests_unchoked (sendInterested pc)"
  using requests_unchoked_sendData [of pc "createMessage INTERESTED []"] interested_not_request
  by (simp add: sendInterested_def Let_def requests_unchoked_def requests_unchoked_peer_update)

lemma written_handleMessage: "written (handleMessage pc t p) = written pc"
  by (simp add: handleMessage_def handlePieceMessage_def requests_unchoked_peer_update)

lemma requests_unchoked_handleHandshake:
  "requests_unchoked pc \<Longrightarrow> requests_unchoked (handleHandshake pc)"
proof -
  assume ok: "requests_unchoked pc"
  have upd: "requests_unchoked (q \<lparr> peer := p, handshakeCompleted := c \<rparr>) = requests_unchoked q"
    "requests_unchoked (q \<lparr> messageBuffer := b \<rparr>) = requests_unchoked q"
    "requests_unchoked (emit q ev) = requests_unchoked q" for q p c b ev
    by (simp_all add: requests_unchoked_def written_def emit_def)
  show ?thesis
    using ok
    by (auto simp: handleHandshake_def Let_def upd intro!: requests_unchoked_sendInterested)
qed

lemma written_processMessages: "written (processMessages pc) = written pc"
proof (induction pc rule: processMessages.induct)
  case (1 pc)
  show ?case
    using 1
    by (subst processMessages.simps)
       (auto simp: Let_def written_handleMessage requests_unchoked_peer_update)
qed

lemma requests_unchoked_handleData:
  "requests_unchoked pc \<Longrightarrow> requests_unchoked (handleData pc d)"
proof -
  assume ok: "requests_unchoked pc"
  have a: "requests_unchoked (pc \<lparr> messageBuffer := messageBuffer pc @ d \<rparr>)"
    using ok by (simp add: requests_unchoked_def requests_unchoked_peer_update)
  have b: "requests_unchoked (processMessages q) = requests_unchoked q" for q
    by (simp add: requests_unchoked_def written_processMessages)
  show ?thesis
    using a by (auto simp: handleData_def Let_def b intro: requests_unchoked_handleHandshake)
qed

lemma requestBlock_unchoked:
  assumes "requestBlock pc i b l = Some pc'" and "\<not> choked (peer pc)" and "requests_unchoked pc"
  shows "requests_unchoked pc' \<and> peer pc' = peer pc"
  using assms
  by (auto simp: requestBlock_def split: option.splits intro: requests_unchoked_sendData)

lemma requestPiece_loop_unchoked:
  "\<not> choked (peer pc) \<Longrightarrow> requests_unchoked pc \<Longrightarrow>
     requests_unchoked (fst (requestPiece_loop pc i n off))"
proof (induction pc i n off rule: requestPiece_loop.induct)
  case (1 pc pieceIndex pieceLen offset)
  show ?case
  proof (cases "offset < pieceLen")
    case False
    with 1 show ?thesis by (simp add: requestPiece_loop.simps [of pc])
  next
    case True
    show ?thesis
    proof (cases "requestBlock pc pieceIndex offset (min 16384 (pieceLen - offset))")
      case None
      with True 1 show ?thesis by (simp add: requestPiece_loop.simps [of pc] Let_def)
    next
      case (Some pc')
      from requestBlock_unchoked [OF Some 1(2) 1(3)]
      have "requests_unchoked pc'" and "\<not> choked (peer pc')" using 1(2) by simp_all
      with 1(1) [OF True refl Some] True Some show ?thesis
        by (simp add: requestPiece_loop.simps [of pc] Let_def)
    qed
  qed
qed

text \<open>The invariant of the sessions.\<close>

lemma sessions_requests_unchoked: "pc \<in> sessions \<Longrightarrow> requests_unchoked pc"
proof (induction rule: sessions.induct)
  case (new p m pid)
  show ?case by (simp add: requests_unchoked_def written_def newPeerClient_def)
next
  case (connect pc)
  show ?case by (simp add: requests_unchoked_def written_def connect_def)
next
  case (onConnect pc)
  then have "requests_unchoked (pc \<lparr> connected := True \<rparr>)"
    by (simp add: requests_unchoked_def requests_unchoked_peer_update)
  then show ?case unfolding onConnect_def by (intro requests_unchoked_sendHandshake)
next
  case (onClose pc)
  then show ?case by (simp add: requests_unchoked_def onClose_def requests_unchoked_peer_update)
next
  case (onError pc message)
  then show ?case by (simp add: requests_unchoked_def onError_def requests_unchoked_peer_update)
next
  case (disconnect pc)
  then show ?case by (simp add: requests_unchoked_def disconnect_def requests_unchoked_peer_update)
next
  case (handleData pc dat)
  from handleData.IH show ?case by (rule requests_unchoked_handleData)
next
  case (handleHandshake pc)
  from handleHandshake.IH show ?case by (rule requests_unchoked_handleHandshake)
next
  case (handleMessage pc messageType payload)
  then show ?case by (simp add: requests_unchoked_def written_handleMessage)
next
  case (requestPiece pc pieceIndex pieceLen)
  then show ?case by (auto simp: requestPiece_def intro: requestPiece_loop_unchoked)
qed

subsection \<open>The example session\<close>

lemma char_of_bytes:
  "char_of (0::nat) = CHR 0x00" "char_of (Suc 0) = CHR 0x01" "char_of (2::nat) = CHR 0x02"
  "char_of (19::nat) = CHR 0x13"
  by (simp_all add: char_of_def bit_iff_odd)

lemma char_of_protocol_length: "char_of (length ''BitTorrent protocol'') = CHR 0x13"
  using char_of_bytes(4) by (simp add: eval_nat_numeral)

text \<open>
  After the remote handshake and the \<open>unchoke\<close> message the session is unchoked; the
  handshake and the \<open>interested\<close> message were written while it was choked.
\<close>

lemma session_ex_state:
  "choked (peer session_ex) = False" "connected session_ex = True"
  "handshakeCompleted session_ex = True" "messageBuffer session_ex = []"
  "emitted session_ex = [EvConnected, EvUnchoked]"
  "socket session_ex =
     Some [\<lparr> wire = [CHR 0x13] @ ''BitTorrent protocol'' @ replicate 8 (CHR 0x00)
                      @ ''HHHHHHHHHHHHHHHHHHHH'' @ ''PPPPPPPPPPPPPPPPPPPP'',
             choked_at_write = True \<rparr>,
           \<lparr> wire = [CHR 0x00, CHR 0x00, CHR 0x00, CHR 0x01, CHR 0x02], choked_at_write = True \<rparr>]"
  by (simp_all add: session_ex_def handleData_def handleHandshake_def onConnect_def connect_def
        newPeerClient_def sendHandshake_def sendInterested_def sendData_def emit_def
        processMessages.simps handleMessage_def createMessage_def be32_def readUInt32BE_def
        slice_def peer_ex_def md_peer_ex_def reply_ex_def PROTOCOL_STRING_def
        CHOKE_def UNCHOKE_def INTERESTED_def Let_def char_of_bytes
        char_of_protocol_length [simplified])

lemma session_ex_sessions: "session_ex \<in> sessions"
  unfolding session_ex_def by (intro sessions.handleData sessions.onConnect sessions.connect sessions.new)

lemma requestPiece_session_ex:
  "written (fst (requestPiece session_ex 0 16384))
     = written session_ex
       @ [\<lparr> wire = createMessage REQUEST (be32 0 @ be32 0 @ be32 16384), choked_at_write = False \<rparr>]"
  by (simp add: requestPiece_def requestPiece_loop.simps requestBlock_def writeUInt32BE_def
        written_sendData session_ex_state Let_def)

lemma request_isRequest: "isRequest (createMessage REQUEST (be32 a @ be32 b @ be32 c))"
  by (simp add: isRequest_def createMessage_def be32_def REQUEST_def)

subsection \<open>Requests and the choked flag\<close>

text \<open>
  C9. In every state that a session reaches, every \<open>request\<close> message written to the
  socket was written while the \<open>choked\<close> flag was false.
\<close>

theorem no_request_while_choked:
  assumes "pc \<in> sessions" and "w \<in> set (written pc)" and "isRequest (wire w)"
  shows "\<not> choked_at_write w"
  using sessions_requests_unchoked [OF assms(1)] assms(2,3)
  by (auto simp: requests_unchoked_def list_all_iff)

theorem no_request_while_choked_witness:
  "fst (requestPiece session_ex 0 16384) \<in> sessions
   \<and> written (fst (requestPiece session_ex 0 16384))
       = written session_ex
         @ [\<lparr> wire = createMessage REQUEST (be32 0 @ be32 0 @ be32 16384), choked_at_write = False \<rparr>]
   \<and> isRequest (createMessage REQUEST (be32 0 @ be32 0 @ be32 16384))
   \<and> \<not> choked_at_write (last (written (fst (requestPiece session_ex 0 16384))))"
proof -
  let ?pc = "fst (requestPiece session_ex 0 16384)"
  let ?w = "\<lparr> wire = createMessage REQUEST (be32 0 @ be32 0 @ be32 16384), choked_at_write = False \<rparr>"
  have s: "?pc \<in> sessions" by (rule sessions.requestPiece [OF session_ex_sessions])
  have l: "last (written ?pc) = ?w" by (simp add: requestPiece_session_ex)
  have m: "last (written ?pc) \<in> set (written ?pc)" by (simp add: requestPiece_session_ex)
  have r: "isRequest (wire (last (written ?pc)))" by (simp add: l request_isRequest)
  from no_request_while_choked [OF s m r] s requestPiece_session_ex request_isRequest
  show ?thesis by simp
qed

end
